theory Spec2Isabelle
  imports Main "HOL-Library.Multiset" "HOL-Library.Sublist"
begin

section \<open>Strings and numbers of the host language\<close>

text \<open>
  Source strings are modelled as \<^typ>\<open>string\<close>, one \<^typ>\<open>char\<close> per code unit below 256.
  The white space class of the regular expression \<^verbatim>\<open>\s\<close> and of \<^verbatim>\<open>trim()\<close> is, in
  that range, TAB, LF, VT, FF, CR, SPACE and the no-break space.
\<close>

definition isWhiteSpace :: "char \<Rightarrow> bool" where
  "isWhiteSpace c = (c \<in> set [CHR 0x09, CHR 0x0A, CHR 0x0B, CHR 0x0C, CHR 0x0D, CHR 0x20, CHR 0xA0])"

text \<open>\<^verbatim>\<open>s.replace(/\s+/g, " ")\<close>: every maximal run of white space becomes one space.\<close>

function replaceWhitespaceRuns :: "string \<Rightarrow> string" where
  "replaceWhitespaceRuns [] = []"
| "replaceWhitespaceRuns (c # cs) =
     (if isWhiteSpace c then CHR 0x20 # replaceWhitespaceRuns (dropWhile isWhiteSpace cs)
      else c # replaceWhitespaceRuns cs)"
  by pat_completeness auto
termination
  by (relation "measure length") (auto simp: length_dropWhile_le less_Suc_eq_le)

text \<open>\<^verbatim>\<open>s.trim()\<close>: white space removed at both ends.\<close>

definition trim :: "string \<Rightarrow> string" where
  "trim s = rev (dropWhile isWhiteSpace (rev (dropWhile isWhiteSpace s)))"

text \<open>\<^verbatim>\<open>s.split("\n")\<close>: the pieces between line feeds; the empty string gives one empty piece.\<close>

fun splitLines :: "string \<Rightarrow> string list" where
  "splitLines [] = [[]]"
| "splitLines (c # cs) =
     (if c = CHR 0x0A then [] # splitLines cs
      else (case splitLines cs of [] \<Rightarrow> [[c]] | l # ls \<Rightarrow> (c # l) # ls))"

text \<open>\<^verbatim>\<open>xs.join("\n")\<close>.\<close>

fun joinLines :: "string list \<Rightarrow> string" where
  "joinLines [] = []"
| "joinLines [l] = l"
| "joinLines (l # ls) = l @ CHR 0x0A # joinLines ls"

text \<open>
  \<^verbatim>\<open>xs.slice(s, e)\<close> on integer arguments: a negative index counts from the end, both
  indices are clamped to the array, and an empty range gives the empty array.
\<close>

definition slice :: "'a list \<Rightarrow> int \<Rightarrow> int \<Rightarrow> 'a list" where
  "slice xs s e =
     (let n = int (length xs);
          k = (if s < 0 then max (n + s) 0 else min s n);
          f = (if e < 0 then max (n + e) 0 else min e n)
      in take (nat (f - k)) (drop (nat k) xs))"

text \<open>
  A counter rendered inside a template literal: its decimal digits. The counters of the
  collectors never exceed the number of mutants of one file, far below \<open>2^53\<close>, so the
  natural numbers model them exactly.
\<close>

definition digitChar :: "nat \<Rightarrow> char" where
  "digitChar d = char_of (48 + d)"

fun decimal :: "nat \<Rightarrow> string" where
  "decimal n = (if n < 10 then [digitChar n] else decimal (n div 10) @ [digitChar (n mod 10)])"

declare decimal.simps [simp del]

text \<open>
  \<^verbatim>\<open>path.basename(p)\<close> on a POSIX path: trailing separators are skipped, then the
  characters after the last remaining separator are returned.
\<close>

definition basename :: "string \<Rightarrow> string" where
  "basename p =
     rev (takeWhile (\<lambda>c. c \<noteq> CHR ''/'') (dropWhile (\<lambda>c. c = CHR ''/'') (rev p)))"

section \<open>Data model\<close>

record position =
  line :: int
  column :: int

record location =
  locStart :: position
  locEnd :: position

text \<open>
  \<^verbatim>\<open>MutantInfo\<close>. The fields \<^verbatim>\<open>id\<close> and \<^verbatim>\<open>context\<close> are renamed (\<open>mutantId\<close>,
  \<open>mutantContext\<close>); \<^verbatim>\<open>expressionText\<close> is optional.
\<close>

record MutantInfo =
  mutantId :: string
  fileName :: string
  mutatorName :: string
  original :: string
  replacement :: string
  location :: location
  mutantContext :: string
  description :: string
  expressionText :: "string option"

text \<open>\<^verbatim>\<open>MutantGroup\<close>; the fields it shares with \<^verbatim>\<open>MutantInfo\<close> carry the prefix \<open>group\<close>.\<close>

record MutantGroup =
  signature :: string
  groupMutatorName :: string
  groupOriginal :: string
  groupReplacement :: string
  groupDescription :: string
  groupExpressionText :: string
  instances :: "MutantInfo list"

section \<open>Grouping by signature\<close>

text \<open>
  The three statements at the head of the loop body of \<^verbatim>\<open>groupMutantsBySignature\<close>.
  \<^verbatim>\<open>mutant.expressionText || mutant.original\<close> takes \<open>original\<close> when the expression
  text is absent and also when it is the empty string.
\<close>

definition exprText :: "MutantInfo \<Rightarrow> string" where
  "exprText mutant =
     (case expressionText mutant of
        None \<Rightarrow> original mutant
      | Some e \<Rightarrow> if e = [] then original mutant else e)"

definition normalized :: "MutantInfo \<Rightarrow> string" where
  "normalized mutant = trim (replaceWhitespaceRuns (exprText mutant))"

definition signatureOf :: "MutantInfo \<Rightarrow> string" where
  "signatureOf mutant =
     mutatorName mutant @ ''|'' @ original mutant @ ''|'' @ replacement mutant @ ''|'' @ normalized mutant"

text \<open>
  The \<^verbatim>\<open>Map<string, MutantGroup>\<close> is an association list in insertion order.
  \<open>mapGet\<close> is \<^verbatim>\<open>groups.get\<close>; \<open>mapSet\<close> is \<^verbatim>\<open>groups.set\<close>, which keeps the position of a
  key already present and appends a new key; \<open>pushInstance\<close> is the in-place
  \<^verbatim>\<open>existing.instances.push(mutant)\<close> on the stored group.
\<close>

fun mapGet :: "(string \<times> MutantGroup) list \<Rightarrow> string \<Rightarrow> MutantGroup option" where
  "mapGet [] k = None"
| "mapGet ((k', g) # rest) k = (if k' = k then Some g else mapGet rest k)"

fun mapSet :: "(string \<times> MutantGroup) list \<Rightarrow> string \<Rightarrow> MutantGroup \<Rightarrow> (string \<times> MutantGroup) list" where
  "mapSet [] k g = [(k, g)]"
| "mapSet ((k', g') # rest) k g = (if k' = k then (k, g) # rest else (k', g') # mapSet rest k g)"

fun pushInstance :: "(string \<times> MutantGroup) list \<Rightarrow> string \<Rightarrow> MutantInfo \<Rightarrow> (string \<times> MutantGroup) list" where
  "pushInstance [] k m = []"
| "pushInstance ((k', g) # rest) k m =
     (if k' = k then (k', g\<lparr>instances := instances g @ [m]\<rparr>) # rest
      else (k', g) # pushInstance rest k m)"

definition newGroup :: "MutantInfo \<Rightarrow> MutantGroup" where
  "newGroup mutant =
     \<lparr> signature = signatureOf mutant,
       groupMutatorName = mutatorName mutant,
       groupOriginal = original mutant,
       groupReplacement = replacement mutant,
       groupDescription = description mutant,
       groupExpressionText = normalized mutant,
       instances = [mutant] \<rparr>"

definition groupStep :: "(string \<times> MutantGroup) list \<Rightarrow> MutantInfo \<Rightarrow> (string \<times> MutantGroup) list" where
  "groupStep groups mutant =
     (case mapGet groups (signatureOf mutant) of
        Some existing \<Rightarrow> pushInstance groups (signatureOf mutant) mutant
      | None \<Rightarrow> mapSet groups (signatureOf mutant) (newGroup mutant))"

definition groupMutantsBySignature :: "MutantInfo list \<Rightarrow> MutantGroup list" where
  "groupMutantsBySignature mutants = map snd (foldl groupStep [] mutants)"

text \<open>\<^verbatim>\<open>group.instances[0]\<close>, the representative of a group (absent on an empty array).\<close>

definition representative :: "MutantGroup \<Rightarrow> MutantInfo option" where
  "representative g = (case instances g of [] \<Rightarrow> None | m # rest \<Rightarrow> Some m)"

section \<open>The syntax tree provider\<close>

text \<open>
  The tree comes from the external provider. A node carries what the collectors read
  from it: its text, its start and end offsets and its first and last line number.
  The variants are those the collectors test for; every other node is an \<open>OtherNode\<close>.
  The operator token of a binary expression is itself a child node (a token, with no
  children); a prefix unary expression carries the kind of its operator.
\<close>

record nodeInfo =
  nodeText :: string
  nodeStart :: int
  nodeEnd :: int
  startLineNumber :: int
  endLineNumber :: int

datatype syntaxKind =
  PlusToken | MinusToken | TildeToken | ExclamationToken | PlusPlusToken | MinusMinusToken

datatype node =
    BinaryExpression nodeInfo node nodeInfo node
  | PrefixUnaryExpression nodeInfo syntaxKind node
  | TrueLiteral nodeInfo
  | FalseLiteral nodeInfo
  | IfStatement nodeInfo node node "node option"
  | OtherNode nodeInfo "node list"

fun getInfo :: "node \<Rightarrow> nodeInfo" where
  "getInfo (BinaryExpression i l t r) = i"
| "getInfo (PrefixUnaryExpression i k operand) = i"
| "getInfo (TrueLiteral i) = i"
| "getInfo (FalseLiteral i) = i"
| "getInfo (IfStatement i c t e) = i"
| "getInfo (OtherNode i cs) = i"

text \<open>A node followed by its descendants, depth first, children in source order.\<close>

fun preorder :: "node \<Rightarrow> node list" where
  "preorder (BinaryExpression i l t r) =
     BinaryExpression i l t r # preorder l @ [OtherNode t []] @ preorder r"
| "preorder (PrefixUnaryExpression i k operand) =
     PrefixUnaryExpression i k operand # preorder operand"
| "preorder (TrueLiteral i) = [TrueLiteral i]"
| "preorder (FalseLiteral i) = [FalseLiteral i]"
| "preorder (IfStatement i c t e) =
     IfStatement i c t e # preorder c @ preorder t @
       (case e of None \<Rightarrow> [] | Some e' \<Rightarrow> preorder e')"
| "preorder (OtherNode i cs) = OtherNode i cs # concat (map preorder cs)"

text \<open>
  A source file: its full text, its last line number, the provider's conversion of an
  offset to a line and column, and its top-level nodes.
\<close>

record sourceFile =
  fullText :: string
  sourceEndLineNumber :: int
  getLineAndColumnAtPos :: "int \<Rightarrow> position"
  topLevel :: "node list"

text \<open>
  \<^verbatim>\<open>sourceFile.forEachDescendant(cb)\<close> with a callback that returns nothing: the callback
  runs on every descendant in pre-order. What the callback mutates is threaded as a state.
\<close>

definition descendants :: "sourceFile \<Rightarrow> node list" where
  "descendants sf = concat (map preorder (topLevel sf))"

definition forEachDescendant :: "sourceFile \<Rightarrow> (node \<Rightarrow> 's \<Rightarrow> 's) \<Rightarrow> 's \<Rightarrow> 's" where
  "forEachDescendant sf cb st = foldl (\<lambda>s n. cb n s) st (descendants sf)"

text \<open>The provider's node tests \<^verbatim>\<open>Node.isBinaryExpression\<close> and \<^verbatim>\<open>Node.isIfStatement\<close>.\<close>

fun isBinaryExpression :: "node \<Rightarrow> bool" where
  "isBinaryExpression (BinaryExpression i l t r) = True"
| "isBinaryExpression n = False"

fun isIfStatement :: "node \<Rightarrow> bool" where
  "isIfStatement (IfStatement i c t e) = True"
| "isIfStatement n = False"

section \<open>The operator catalog\<close>

text \<open>
  The two tables, as association lists in the order of the source. The text of an
  operator token is one of the operators of the language, none of which names an
  inherited property of the table object, so a lookup finds a listed key or nothing.
\<close>

definition BINARY_OPERATOR_MUTATIONS :: "(string \<times> string list) list" where
  "BINARY_OPERATOR_MUTATIONS =
     [(''+'', [''-'']),
      (''-'', [''+'']),
      (''*'', [''/'']),
      (''/'', [''*'']),
      (''%'', [''*'']),
      (''==='', [''!=='']),
      (''!=='', [''==='']),
      (''=='', [''!='']),
      (''!='', [''=='']),
      (''>'', [''>='', ''<'', ''<='']),
      (''<'', [''<='', ''>'', ''>='']),
      (''>='', [''>'', ''<'', ''<='']),
      (''<='', [''<'', ''>'', ''>='']),
      (''&&'', [''||'']),
      (''||'', [''&&''])]"

definition UNARY_OPERATOR_MUTATIONS :: "(syntaxKind \<times> string \<times> string list) list" where
  "UNARY_OPERATOR_MUTATIONS =
     [(ExclamationToken, ''!'', [[]]),
      (MinusToken, ''-'', [[]]),
      (PlusToken, ''+'', [''-'']),
      (PlusPlusToken, ''++'', [''--'']),
      (MinusMinusToken, ''--'', [''++''])]"

section \<open>The collectors\<close>

definition getContext :: "sourceFile \<Rightarrow> node \<Rightarrow> int \<Rightarrow> string" where
  "getContext sf n lines =
     (let startLine = max 1 (startLineNumber (getInfo n) - lines);
          endLine = min (sourceEndLineNumber sf) (endLineNumber (getInfo n) + lines);
          allLines = splitLines (fullText sf)
      in joinLines (slice allLines (startLine - 1) endLine))"

definition dquote :: string where
  "dquote = [CHR 0x22]"

text \<open>
  \<^verbatim>\<open>describeMutation\<close>. The collectors call it with the five literal names only. The
  last branch is the fallback for a name outside the table; its arrow is written as the
  three bytes of its UTF-8 encoding.
\<close>

definition describeMutation :: "string \<Rightarrow> string \<Rightarrow> string \<Rightarrow> string" where
  "describeMutation name orig repl =
     (if name = ''BinaryOperator'' then
        ''Change operator '' @ dquote @ orig @ dquote @ '' to '' @ dquote @ repl @ dquote
      else if name = ''UnaryOperator'' then
        (if repl \<noteq> [] then ''Change unary '' @ dquote @ orig @ dquote @ '' to '' @ dquote @ repl @ dquote
         else ''Remove unary operator '' @ dquote @ orig @ dquote)
      else if name = ''BooleanLiteral'' then
        ''Flip boolean from '' @ orig @ '' to '' @ repl
      else if name = ''ConditionalRemoval'' then
        ''Remove conditional - always take '' @ repl @ '' branch''
      else if name = ''BoundaryCondition'' then
        ''Change boundary: '' @ dquote @ orig @ dquote @ '' to '' @ dquote @ repl @ dquote
      else name @ '': '' @ dquote @ orig @ dquote @ '' '' @ [CHR 0xE2, CHR 0x86, CHR 0x92] @ '' ''
             @ dquote @ repl @ dquote)"

text \<open>The identifier \<^verbatim>\<open>`${path.basename(fileName)}-${++id}`\<close>, given the incremented counter.\<close>

definition makeId :: "string \<Rightarrow> nat \<Rightarrow> string" where
  "makeId file n = basename file @ ''-'' @ decimal n"

text \<open>
  Each collector keeps an array of mutants and a counter; its callback is a function on
  that pair. \<open>binaryPush\<close> is the body of the loop over the replacements of one operator.
\<close>

type_synonym collectorState = "MutantInfo list \<times> nat"

definition binaryPush ::
  "sourceFile \<Rightarrow> string \<Rightarrow> node \<Rightarrow> nodeInfo \<Rightarrow> collectorState \<Rightarrow> string \<Rightarrow> collectorState" where
  "binaryPush sf file n opToken st repl =
     (let operator = nodeText opToken;
          startPos = nodeStart opToken;
          endPos = nodeEnd opToken;
          isBoundary = (operator \<in> set [''>'', ''<'', ''>='', ''<='']);
          k = Suc (snd st)
      in (fst st @
          [\<lparr> mutantId = makeId file k,
             fileName = file,
             mutatorName = (if isBoundary then ''BoundaryCondition'' else ''BinaryOperator''),
             original = operator,
             replacement = repl,
             location = \<lparr> locStart = getLineAndColumnAtPos sf startPos,
                          locEnd = getLineAndColumnAtPos sf endPos \<rparr>,
             mutantContext = getContext sf n 2,
             description =
               describeMutation (if isBoundary then ''BoundaryCondition'' else ''BinaryOperator'')
                 operator repl,
             expressionText = Some (nodeText (getInfo n)) \<rparr>], k))"

fun binaryVisit :: "sourceFile \<Rightarrow> string \<Rightarrow> node \<Rightarrow> collectorState \<Rightarrow> collectorState" where
  "binaryVisit sf file (BinaryExpression i l t r) st =
     (case map_of BINARY_OPERATOR_MUTATIONS (nodeText t) of
        None \<Rightarrow> st
      | Some mutations \<Rightarrow> foldl (binaryPush sf file (BinaryExpression i l t r) t) st mutations)"
| "binaryVisit sf file n st = st"

definition collectBinaryMutations :: "sourceFile \<Rightarrow> string \<Rightarrow> MutantInfo list" where
  "collectBinaryMutations sf file = fst (forEachDescendant sf (binaryVisit sf file) ([], 0))"

definition unaryPush ::
  "sourceFile \<Rightarrow> string \<Rightarrow> node \<Rightarrow> string \<Rightarrow> collectorState \<Rightarrow> string \<Rightarrow> collectorState" where
  "unaryPush sf file n orig st repl =
     (let startPos = nodeStart (getInfo n);
          k = Suc (snd st)
      in (fst st @
          [\<lparr> mutantId = makeId file k,
             fileName = file,
             mutatorName = ''UnaryOperator'',
             original = orig,
             replacement = (if repl \<noteq> [] then repl else ''(removed)''),
             location = \<lparr> locStart = getLineAndColumnAtPos sf startPos,
                          locEnd = getLineAndColumnAtPos sf (startPos + int (length orig)) \<rparr>,
             mutantContext = getContext sf n 2,
             description = describeMutation ''UnaryOperator'' orig repl,
             expressionText = Some (nodeText (getInfo n)) \<rparr>], k))"

fun unaryVisit :: "sourceFile \<Rightarrow> string \<Rightarrow> node \<Rightarrow> collectorState \<Rightarrow> collectorState" where
  "unaryVisit sf file (PrefixUnaryExpression i k operand) st =
     (case map_of UNARY_OPERATOR_MUTATIONS k of
        None \<Rightarrow> st
      | Some (orig, replacements) \<Rightarrow>
          foldl (unaryPush sf file (PrefixUnaryExpression i k operand) orig) st replacements)"
| "unaryVisit sf file n st = st"

definition collectUnaryMutations :: "sourceFile \<Rightarrow> string \<Rightarrow> nat \<Rightarrow> MutantInfo list" where
  "collectUnaryMutations sf file startId =
     fst (forEachDescendant sf (unaryVisit sf file) ([], startId))"

definition booleanPush :: "sourceFile \<Rightarrow> string \<Rightarrow> node \<Rightarrow> collectorState \<Rightarrow> collectorState" where
  "booleanPush sf file n st =
     (let orig = nodeText (getInfo n);
          repl = (if orig = ''true'' then ''false'' else ''true'');
          startPos = nodeStart (getInfo n);
          endPos = nodeEnd (getInfo n);
          k = Suc (snd st)
      in (fst st @
          [\<lparr> mutantId = makeId file k,
             fileName = file,
             mutatorName = ''BooleanLiteral'',
             original = orig,
             replacement = repl,
             location = \<lparr> locStart = getLineAndColumnAtPos sf startPos,
                          locEnd = getLineAndColumnAtPos sf endPos \<rparr>,
             mutantContext = getContext sf n 2,
             description = describeMutation ''BooleanLiteral'' orig repl,
             expressionText = Some (nodeText (getInfo n)) \<rparr>], k))"

fun booleanVisit :: "sourceFile \<Rightarrow> string \<Rightarrow> node \<Rightarrow> collectorState \<Rightarrow> collectorState" where
  "booleanVisit sf file (TrueLiteral i) st = booleanPush sf file (TrueLiteral i) st"
| "booleanVisit sf file (FalseLiteral i) st = booleanPush sf file (FalseLiteral i) st"
| "booleanVisit sf file n st = st"

definition collectBooleanMutations :: "sourceFile \<Rightarrow> string \<Rightarrow> nat \<Rightarrow> MutantInfo list" where
  "collectBooleanMutations sf file startId =
     fst (forEachDescendant sf (booleanVisit sf file) ([], startId))"

text \<open>
  One of the two pushes of the conditional callback: \<open>repl\<close> is the replacement text and
  \<open>branch\<close> the word handed to \<^verbatim>\<open>describeMutation\<close>.
\<close>

definition conditionalPush ::
  "sourceFile \<Rightarrow> string \<Rightarrow> node \<Rightarrow> node \<Rightarrow> string \<Rightarrow> string \<Rightarrow> collectorState \<Rightarrow> collectorState" where
  "conditionalPush sf file n condition repl branch st =
     (let startPos = nodeStart (getInfo condition);
          endPos = nodeEnd (getInfo condition);
          k = Suc (snd st)
      in (fst st @
          [\<lparr> mutantId = makeId file k,
             fileName = file,
             mutatorName = ''ConditionalRemoval'',
             original = nodeText (getInfo condition),
             replacement = repl,
             location = \<lparr> locStart = getLineAndColumnAtPos sf startPos,
                          locEnd = getLineAndColumnAtPos sf endPos \<rparr>,
             mutantContext = getContext sf n 3,
             description =
               describeMutation ''ConditionalRemoval'' (nodeText (getInfo condition)) branch,
             expressionText = Some (nodeText (getInfo condition)) \<rparr>], k))"

fun conditionalVisit :: "sourceFile \<Rightarrow> string \<Rightarrow> node \<Rightarrow> collectorState \<Rightarrow> collectorState" where
  "conditionalVisit sf file (IfStatement i c t e) st =
     conditionalPush sf file (IfStatement i c t e) c ''false (always else-branch)'' ''else-branch''
       (conditionalPush sf file (IfStatement i c t e) c ''true (always if-branch)'' ''if-branch'' st)"
| "conditionalVisit sf file n st = st"

definition collectConditionalMutations :: "sourceFile \<Rightarrow> string \<Rightarrow> nat \<Rightarrow> MutantInfo list" where
  "collectConditionalMutations sf file startId =
     fst (forEachDescendant sf (conditionalVisit sf file) ([], startId))"

section \<open>The aggregator\<close>

text \<open>
  What \<^verbatim>\<open>generateMutants\<close> reaches outside the engine is an environment: the file system
  test, the external command runner, the two path functions (with the working directory
  fixed) and the project's tree construction, which either returns a source file or
  throws. \<^verbatim>\<open>generateMutants\<close> is asynchronous and awaits nothing: its outcome is either the
  list it returns (\<open>Inr\<close>) or what was thrown on the way (\<open>Inl\<close>). The progress line it
  writes to the error stream is left out.
\<close>

datatype exn = Thrown string

record environment =
  existsSync :: "string \<Rightarrow> bool"
  execSync :: "string \<Rightarrow> exn + string"
  resolve :: "string \<Rightarrow> string"
  relativeToCwd :: "string \<Rightarrow> string"
  addSourceFileAtPath :: "string \<Rightarrow> exn + sourceFile"

record GenerateMutantsOptions =
  files :: "string list option"
  fromGitDiff :: "bool option"
  baseBranch :: "string option"

text \<open>The three filters applied to the output of the diff command.\<close>

definition filterChanged :: "environment \<Rightarrow> string \<Rightarrow> string list" where
  "filterChanged env diff =
     filter (existsSync env)
       (filter (\<lambda>f. \<not> sublist ''.test.'' f \<and> \<not> sublist ''.spec.'' f)
         (filter (\<lambda>f. suffix ''.ts'' f \<or> suffix ''.tsx'' f \<or> suffix ''.js'' f \<or> suffix ''.jsx'' f)
           (splitLines diff)))"

definition getChangedFiles :: "environment \<Rightarrow> string \<Rightarrow> string list" where
  "getChangedFiles env branch =
     (case execSync env
             (''git diff --name-only '' @ branch @ ''...HEAD 2>/dev/null || git diff --name-only HEAD'') of
        Inr diff \<Rightarrow> filterChanged env diff
      | Inl e \<Rightarrow>
          (case execSync env ''git diff --name-only'' of
             Inr diff \<Rightarrow> filterChanged env diff
           | Inl e' \<Rightarrow> []))"

text \<open>
  The body of the loop over the files, after the tree is built: the four collectors in
  order, the counter \<open>currentId\<close> advanced by the number of mutants of each.
\<close>

definition fileMutants :: "sourceFile \<Rightarrow> string \<Rightarrow> MutantInfo list" where
  "fileMutants sf relativeFileName =
     (let binaryMutants = collectBinaryMutations sf relativeFileName;
          currentId1 = 0 + length binaryMutants;
          unaryMutants = collectUnaryMutations sf relativeFileName currentId1;
          currentId2 = currentId1 + length unaryMutants;
          booleanMutants = collectBooleanMutations sf relativeFileName currentId2;
          currentId3 = currentId2 + length booleanMutants;
          conditionalMutants = collectConditionalMutations sf relativeFileName currentId3
      in binaryMutants @ unaryMutants @ booleanMutants @ conditionalMutants)"

text \<open>
  The loop over the files. Nothing catches what the tree construction throws, so the
  first failure ends the loop and is the outcome of the whole call.
\<close>

fun processFiles :: "environment \<Rightarrow> string list \<Rightarrow> MutantInfo list \<Rightarrow> exn + MutantInfo list" where
  "processFiles env [] allMutants = Inr allMutants"
| "processFiles env (filePath # rest) allMutants =
     (let absolutePath = resolve env filePath in
      case addSourceFileAtPath env absolutePath of
        Inl e \<Rightarrow> Inl e
      | Inr sf \<Rightarrow>
          processFiles env rest (allMutants @ fileMutants sf (relativeToCwd env absolutePath)))"

definition filePathsOf :: "environment \<Rightarrow> GenerateMutantsOptions \<Rightarrow> string list" where
  "filePathsOf env options =
     (case files options of
        Some fs \<Rightarrow>
          if length fs > 0 then filter (existsSync env) fs
          else if fromGitDiff options = Some True then
            getChangedFiles env (case baseBranch options of None \<Rightarrow> ''main'' | Some b \<Rightarrow> b)
          else []
      | None \<Rightarrow>
          if fromGitDiff options = Some True then
            getChangedFiles env (case baseBranch options of None \<Rightarrow> ''main'' | Some b \<Rightarrow> b)
          else [])"

definition generateMutants :: "environment \<Rightarrow> GenerateMutantsOptions \<Rightarrow> exn + MutantInfo list" where
  "generateMutants env options =
     (let filePaths = filePathsOf env options in
      if length filePaths = 0 then Inr [] else processFiles env filePaths [])"

section \<open>Notions used to state the properties\<close>

text \<open>The distinct elements of a list, in the order in which each first occurs.\<close>

fun firstOccurrences :: "'a list \<Rightarrow> 'a list" where
  "firstOccurrences [] = []"
| "firstOccurrences (x # xs) = x # filter (\<lambda>y. y \<noteq> x) (firstOccurrences xs)"

text \<open>
  The group that a non-empty list of mutants of one signature makes: the derived fields
  come from the first mutant, the instances are the whole list.
\<close>

fun groupOfInstances :: "MutantInfo list \<Rightarrow> MutantGroup" where
  "groupOfInstances [] =
     \<lparr> signature = [], groupMutatorName = [], groupOriginal = [], groupReplacement = [],
       groupDescription = [], groupExpressionText = [], instances = [] \<rparr>"
| "groupOfInstances (m # rest) = (newGroup m)\<lparr>instances := m # rest\<rparr>"

text \<open>Two mutants land in the same group: some group has both among its instances.\<close>

definition sameGroup :: "MutantGroup list \<Rightarrow> MutantInfo \<Rightarrow> MutantInfo \<Rightarrow> bool" where
  "sameGroup gs a b = list_ex (\<lambda>g. a \<in> set (instances g) \<and> b \<in> set (instances g)) gs"

text \<open>The delimiter of the signature occurs in none of the first three fields of a mutant.\<close>

definition delimiterFree :: "MutantInfo \<Rightarrow> bool" where
  "delimiterFree m =
     (CHR ''|'' \<notin> set (mutatorName m) \<and> CHR ''|'' \<notin> set (original m) \<and> CHR ''|'' \<notin> set (replacement m))"

text \<open>The position of the first element of a list that satisfies a predicate.\<close>

definition firstIndex :: "('a \<Rightarrow> bool) \<Rightarrow> 'a list \<Rightarrow> nat" where
  "firstIndex P xs = length (takeWhile (\<lambda>x. \<not> P x) xs)"

text \<open>
  The identifiers of a list of mutants are those of the file \<open>file\<close> with the counter
  running from \<open>k + 1\<close> on.
\<close>

definition numberedFrom :: "string \<Rightarrow> nat \<Rightarrow> MutantInfo list \<Rightarrow> bool" where
  "numberedFrom file k new = (map mutantId new = map (makeId file) [Suc k ..< Suc (k + length new)])"

text \<open>A mutant with its identifier blanked: what it says apart from its number.\<close>

definition eraseId :: "MutantInfo \<Rightarrow> MutantInfo" where
  "eraseId m = m\<lparr>mutantId := []\<rparr>"

text \<open>
  A step of a collector on its state is uniform: it appends to the array what it would
  push on an empty one, advances the counter by as many, numbers what it pushes from
  the counter on, gives every mutant the file name, and pushes the same mutants, apart
  from their identifiers, whatever the counter is.
\<close>

definition uniformStep :: "string \<Rightarrow> (collectorState \<Rightarrow> collectorState) \<Rightarrow> bool" where
  "uniformStep file step =
     (\<forall>ms k.
        fst (step (ms, k)) = ms @ fst (step ([], k))
        \<and> snd (step (ms, k)) = k + length (fst (step ([], k)))
        \<and> numberedFrom file k (fst (step ([], k)))
        \<and> list_all (\<lambda>m. fileName m = file) (fst (step ([], k)))
        \<and> map eraseId (fst (step ([], k))) = map eraseId (fst (step ([], 0))))"

section \<open>Example inputs\<close>

definition exampleMutant ::
  "string \<Rightarrow> int \<Rightarrow> string \<Rightarrow> string \<Rightarrow> string \<Rightarrow> string option \<Rightarrow> MutantInfo" where
  "exampleMutant file ln kind orig repl e =
     \<lparr> mutantId = makeId file 1,
       fileName = file,
       mutatorName = kind,
       original = orig,
       replacement = repl,
       location = \<lparr> locStart = \<lparr> line = ln, column = 3 \<rparr>, locEnd = \<lparr> line = ln, column = 4 \<rparr> \<rparr>,
       mutantContext = [],
       description = describeMutation kind orig repl,
       expressionText = e \<rparr>"

text \<open>
  The same boundary mutation of \<^verbatim>\<open>n > 0\<close> found in two files (spelled with different
  white space in the second), and another mutation of the same expression.
\<close>

definition exampleA :: MutantInfo where
  "exampleA = exampleMutant ''src/a.ts'' 1 ''BoundaryCondition'' ''>'' ''>='' (Some ''n > 0'')"

definition exampleB :: MutantInfo where
  "exampleB = exampleMutant ''lib/b.ts'' 7 ''BoundaryCondition'' ''>'' ''>='' (Some ''n  >  0 '')"

definition exampleC :: MutantInfo where
  "exampleC = exampleMutant ''src/a.ts'' 1 ''BoundaryCondition'' ''>'' ''<'' (Some ''n > 0'')"

text \<open>Two hand-built mutants whose fields differ and whose signatures coincide.\<close>

definition collideA :: MutantInfo where
  "collideA = exampleMutant ''src/a.ts'' 1 ''BinaryOperator'' ''|'' ''||'' (Some ''a'')"

definition collideB :: MutantInfo where
  "collideB = exampleMutant ''src/a.ts'' 1 ''BinaryOperator'' ''||'' ''|'' (Some ''a'')"

text \<open>A mutant with an empty expression text and one with none.\<close>

definition exampleEmpty :: MutantInfo where
  "exampleEmpty = exampleMutant ''src/a.ts'' 1 ''BooleanLiteral'' ''true'' ''false'' (Some [])"

definition exampleAbsent :: MutantInfo where
  "exampleAbsent = exampleMutant ''src/a.ts'' 2 ''BooleanLiteral'' ''true'' ''false'' None"

text \<open>A line and column conversion for the example files, computed from the text.\<close>

definition lineColumnIn :: "string \<Rightarrow> int \<Rightarrow> position" where
  "lineColumnIn txt pos =
     (let sofar = take (nat pos) txt
      in \<lparr> line = 1 + int (length (filter (\<lambda>c. c = CHR 0x0A) sofar)),
           column = 1 + int (length (takeWhile (\<lambda>c. c \<noteq> CHR 0x0A) (rev sofar))) \<rparr>)"

definition leaf :: "string \<Rightarrow> int \<Rightarrow> int \<Rightarrow> int \<Rightarrow> node" where
  "leaf txt s e ln =
     OtherNode \<lparr> nodeText = txt, nodeStart = s, nodeEnd = e, startLineNumber = ln, endLineNumber = ln \<rparr> []"

text \<open>The one-line file \<^verbatim>\<open>n > 0\<close>: an expression statement holding one binary expression.\<close>

definition positiveExpression :: node where
  "positiveExpression =
     BinaryExpression
       \<lparr> nodeText = ''n > 0'', nodeStart = 0, nodeEnd = 5, startLineNumber = 1, endLineNumber = 1 \<rparr>
       (leaf ''n'' 0 1 1)
       \<lparr> nodeText = ''>'', nodeStart = 2, nodeEnd = 3, startLineNumber = 1, endLineNumber = 1 \<rparr>
       (leaf ''0'' 4 5 1)"

definition examplePositive :: sourceFile where
  "examplePositive =
     \<lparr> fullText = ''n > 0'',
       sourceEndLineNumber = 1,
       getLineAndColumnAtPos = lineColumnIn ''n > 0'',
       topLevel =
         [OtherNode \<lparr> nodeText = ''n > 0'', nodeStart = 0, nodeEnd = 5,
                      startLineNumber = 1, endLineNumber = 1 \<rparr> [positiveExpression]] \<rparr>"

text \<open>
  A file of nine lines with a guarded return on lines 4 to 6:
  \<^verbatim>\<open>a; b; c; if (x < y) { return !true; } d; e; f;\<close>, one statement or brace per line.
\<close>

definition guardLines :: "string list" where
  "guardLines = [''a;'', ''b;'', ''c;'', ''if (x < y) {'', ''  return !true;'', ''}'', ''d;'', ''e;'', ''f;'']"

definition guardCondition :: node where
  "guardCondition =
     BinaryExpression
       \<lparr> nodeText = ''x < y'', nodeStart = 13, nodeEnd = 18, startLineNumber = 4, endLineNumber = 4 \<rparr>
       (leaf ''x'' 13 14 4)
       \<lparr> nodeText = ''<'', nodeStart = 15, nodeEnd = 16, startLineNumber = 4, endLineNumber = 4 \<rparr>
       (leaf ''y'' 17 18 4)"

definition guardStatement :: node where
  "guardStatement =
     IfStatement
       \<lparr> nodeText = joinLines [''if (x < y) {'', ''  return !true;'', ''}''],
         nodeStart = 9, nodeEnd = 39, startLineNumber = 4, endLineNumber = 6 \<rparr>
       guardCondition
       (OtherNode
          \<lparr> nodeText = joinLines [''{'', ''  return !true;'', ''}''],
            nodeStart = 20, nodeEnd = 39, startLineNumber = 4, endLineNumber = 6 \<rparr>
          [OtherNode
             \<lparr> nodeText = ''return !true;'', nodeStart = 24, nodeEnd = 37,
               startLineNumber = 5, endLineNumber = 5 \<rparr>
             [PrefixUnaryExpression
                \<lparr> nodeText = ''!true'', nodeStart = 31, nodeEnd = 36,
                  startLineNumber = 5, endLineNumber = 5 \<rparr>
                ExclamationToken
                (TrueLiteral
                   \<lparr> nodeText = ''true'', nodeStart = 32, nodeEnd = 36,
                     startLineNumber = 5, endLineNumber = 5 \<rparr>)]])
       None"

definition exampleGuard :: sourceFile where
  "exampleGuard =
     \<lparr> fullText = joinLines guardLines,
       sourceEndLineNumber = 9,
       getLineAndColumnAtPos = lineColumnIn (joinLines guardLines),
       topLevel =
         [leaf ''a;'' 0 2 1, leaf ''b;'' 3 5 2, leaf ''c;'' 6 8 3, guardStatement,
          leaf ''d;'' 40 42 7, leaf ''e;'' 43 45 8, leaf ''f;'' 46 48 9] \<rparr>"

text \<open>
  A file of three lines with an \<open>if\<close> statement inside the block of another:
  \<^verbatim>\<open>if (a) {\<close>, \<^verbatim>\<open>  if (b) x;\<close>, \<^verbatim>\<open>}\<close>.
\<close>

definition nestedLines :: "string list" where
  "nestedLines = [''if (a) {'', ''  if (b) x;'', ''}'']"

definition innerIf :: node where
  "innerIf =
     IfStatement
       \<lparr> nodeText = ''if (b) x;'', nodeStart = 11, nodeEnd = 20,
         startLineNumber = 2, endLineNumber = 2 \<rparr>
       (leaf ''b'' 15 16 2)
       (leaf ''x;'' 18 20 2)
       None"

definition outerIf :: node where
  "outerIf =
     IfStatement
       \<lparr> nodeText = joinLines nestedLines, nodeStart = 0, nodeEnd = 22,
         startLineNumber = 1, endLineNumber = 3 \<rparr>
       (leaf ''a'' 4 5 1)
       (OtherNode
          \<lparr> nodeText = joinLines [''{'', ''  if (b) x;'', ''}''], nodeStart = 7, nodeEnd = 22,
            startLineNumber = 1, endLineNumber = 3 \<rparr>
          [innerIf])
       None"

definition exampleNested :: sourceFile where
  "exampleNested =
     \<lparr> fullText = joinLines nestedLines,
       sourceEndLineNumber = 3,
       getLineAndColumnAtPos = lineColumnIn (joinLines nestedLines),
       topLevel = [outerIf] \<rparr>"

text \<open>
  An environment for the examples: the files of \<open>present\<close> exist, the working directory
  is \<^verbatim>\<open>/w\<close>, no diff command runs, and the tree construction succeeds on the paths of
  \<open>parsed\<close> and throws on every other path.
\<close>

definition exampleEnv :: "string list \<Rightarrow> (string \<times> sourceFile) list \<Rightarrow> environment" where
  "exampleEnv present parsed =
     \<lparr> existsSync = (\<lambda>p. p \<in> set present),
       execSync = (\<lambda>c. Inl (Thrown ''not a git repository'')),
       resolve = (\<lambda>p. ''/w/'' @ p),
       relativeToCwd = drop 3,
       addSourceFileAtPath =
         (\<lambda>p. case map_of parsed p of
                Some sf \<Rightarrow> Inr sf
              | None \<Rightarrow> Inl (Thrown ''no tree'')) \<rparr>"

definition explicitFiles :: "string list \<Rightarrow> GenerateMutantsOptions" where
  "explicitFiles fs = \<lparr> files = Some fs, fromGitDiff = None, baseBranch = None \<rparr>"

text \<open>Two files of the same base name in different directories.\<close>

definition sameBasenameEnv :: environment where
  "sameBasenameEnv =
     exampleEnv [''src/x.ts'', ''lib/x.ts'']
       [(''/w/src/x.ts'', examplePositive), (''/w/lib/x.ts'', examplePositive)]"

text \<open>Three files that exist, the second of which the tree construction rejects.\<close>

definition rejectingEnv :: environment where
  "rejectingEnv =
     exampleEnv [''good.ts'', ''bad.ts'', ''also.ts'']
       [(''/w/good.ts'', examplePositive), (''/w/also.ts'', exampleGuard)]"

section \<open>Grouping: the result in closed form\<close>

lemma set_firstOccurrences: "set (firstOccurrences xs) = set xs"
  by (induction xs) auto

lemma distinct_firstOccurrences: "distinct (firstOccurrences xs)"
  by (induction xs) (auto simp: set_firstOccurrences)

lemma firstOccurrences_snoc:
  "firstOccurrences (xs @ [x]) =
     (if x \<in> set xs then firstOccurrences xs else firstOccurrences xs @ [x])"
  by (induction xs) auto

lemma mapGet_map:
  "mapGet (map (\<lambda>s. (s, f s)) ks) k = (if k \<in> set ks then Some (f k) else None)"
  by (induction ks) auto

lemma mapSet_map_fresh:
  "k \<notin> set ks \<Longrightarrow> mapSet (map (\<lambda>s. (s, f s)) ks) k g = map (\<lambda>s. (s, f s)) ks @ [(k, g)]"
  by (induction ks) auto

lemma pushInstance_map:
  "distinct ks \<Longrightarrow>
   pushInstance (map (\<lambda>s. (s, f s)) ks) k m =
     map (\<lambda>s. (s, if s = k then (f s)\<lparr>instances := instances (f s) @ [m]\<rparr> else f s)) ks"
proof (induction ks)
  case Nil
  then show ?case by simp
next
  case (Cons a ks)
  show ?case
  proof (cases "a = k")
    case True
    with Cons.prems have "k \<notin> set ks" by simp
    then have "map (\<lambda>s. (s, if s = k then (f s)\<lparr>instances := instances (f s) @ [m]\<rparr> else f s)) ks
      = map (\<lambda>s. (s, f s)) ks"
      by (intro map_cong) auto
    with True show ?thesis by simp
  next
    case False
    with Cons show ?thesis by simp
  qed
qed

text \<open>The group of one signature, read off the input.\<close>

lemma groupOf_snoc_other:
  "signatureOf m \<noteq> s \<Longrightarrow>
   groupOfInstances (filter (\<lambda>x. signatureOf x = s) (ms @ [m])) =
   groupOfInstances (filter (\<lambda>x. signatureOf x = s) ms)"
  by simp

lemma groupOf_snoc_same:
  assumes "signatureOf m \<in> set (map signatureOf ms)"
  shows "groupOfInstances (filter (\<lambda>x. signatureOf x = signatureOf m) (ms @ [m])) =
     (groupOfInstances (filter (\<lambda>x. signatureOf x = signatureOf m) ms))
       \<lparr>instances := instances (groupOfInstances (filter (\<lambda>x. signatureOf x = signatureOf m) ms)) @ [m]\<rparr>"
proof -
  from assms have "filter (\<lambda>x. signatureOf x = signatureOf m) ms \<noteq> []"
    by (force simp: filter_empty_conv image_iff)
  then obtain a rest where "filter (\<lambda>x. signatureOf x = signatureOf m) ms = a # rest"
    by (cases "filter (\<lambda>x. signatureOf x = signatureOf m) ms") auto
  then show ?thesis by simp
qed

lemma groupOf_snoc_new:
  assumes "signatureOf m \<notin> set (map signatureOf ms)"
  shows "groupOfInstances (filter (\<lambda>x. signatureOf x = signatureOf m) (ms @ [m])) = newGroup m"
proof -
  from assms have "filter (\<lambda>x. signatureOf x = signatureOf m) ms = []"
    by (force simp: filter_empty_conv image_iff)
  then show ?thesis by (simp add: newGroup_def)
qed

lemma foldl_groupStep:
  "foldl groupStep [] ms =
     map (\<lambda>s. (s, groupOfInstances (filter (\<lambda>x. signatureOf x = s) ms)))
       (firstOccurrences (map signatureOf ms))"
proof (induction ms rule: rev_induct)
  case Nil
  then show ?case by simp
next
  case (snoc m ms)
  let ?ks = "firstOccurrences (map signatureOf ms)"
  let ?k = "signatureOf m"
  let ?G = "\<lambda>xs s. groupOfInstances (filter (\<lambda>x. signatureOf x = s) xs)"
  have step: "foldl groupStep [] (ms @ [m]) = groupStep (map (\<lambda>s. (s, ?G ms s)) ?ks) m"
    using snoc by simp
  show ?case
  proof (cases "?k \<in> set (map signatureOf ms)")
    case True
    have "groupStep (map (\<lambda>s. (s, ?G ms s)) ?ks) m =
          map (\<lambda>s. (s, if s = ?k then (?G ms s)\<lparr>instances := instances (?G ms s) @ [m]\<rparr> else ?G ms s)) ?ks"
      using True
      by (simp add: groupStep_def mapGet_map pushInstance_map set_firstOccurrences
            distinct_firstOccurrences)
    also have "\<dots> = map (\<lambda>s. (s, ?G (ms @ [m]) s)) ?ks"
    proof (intro map_cong refl)
      fix s
      show "(s, if s = ?k then (?G ms s)\<lparr>instances := instances (?G ms s) @ [m]\<rparr> else ?G ms s)
          = (s, ?G (ms @ [m]) s)"
        using groupOf_snoc_same [OF True] by (cases "s = ?k") auto
    qed
    finally show ?thesis
      using True step by (simp add: firstOccurrences_snoc)
  next
    case False
    have e1: "groupStep (map (\<lambda>s. (s, ?G ms s)) ?ks) m =
          map (\<lambda>s. (s, ?G ms s)) ?ks @ [(?k, newGroup m)]"
      using False by (simp add: groupStep_def mapGet_map mapSet_map_fresh set_firstOccurrences)
    have e2: "map (\<lambda>s. (s, ?G ms s)) ?ks = map (\<lambda>s. (s, ?G (ms @ [m]) s)) ?ks"
    proof (intro map_cong refl)
      fix s
      assume "s \<in> set ?ks"
      with False have "signatureOf m \<noteq> s"
        by (auto simp: set_firstOccurrences)
      then show "(s, ?G ms s) = (s, ?G (ms @ [m]) s)"
        by simp
    qed
    have "foldl groupStep [] (ms @ [m]) = map (\<lambda>s. (s, ?G ms s)) ?ks @ [(?k, newGroup m)]"
      using step e1 by simp
    also have "\<dots> = map (\<lambda>s. (s, ?G (ms @ [m]) s)) ?ks @ [(?k, ?G (ms @ [m]) ?k)]"
      using e2 groupOf_snoc_new [OF False] by simp
    finally show ?thesis
      using False by (simp add: firstOccurrences_snoc)
  qed
qed

lemma groupMutantsBySignature_closed:
  "groupMutantsBySignature ms =
     map (\<lambda>s. groupOfInstances (filter (\<lambda>x. signatureOf x = s) ms))
       (firstOccurrences (map signatureOf ms))"
  by (simp add: groupMutantsBySignature_def foldl_groupStep comp_def)

lemma instances_groupOfInstances: "instances (groupOfInstances xs) = xs"
  by (cases xs) simp_all

lemma instances_grouped:
  "map instances (groupMutantsBySignature ms) =
     map (\<lambda>s. filter (\<lambda>x. signatureOf x = s) ms) (firstOccurrences (map signatureOf ms))"
  by (simp add: groupMutantsBySignature_closed comp_def instances_groupOfInstances)

lemma signature_groupOfInstances:
  "s \<in> set (map signatureOf ms) \<Longrightarrow>
   signature (groupOfInstances (filter (\<lambda>x. signatureOf x = s) ms)) = s"
proof -
  assume "s \<in> set (map signatureOf ms)"
  then have ne: "filter (\<lambda>x. signatureOf x = s) ms \<noteq> []"
    by (force simp: filter_empty_conv image_iff)
  then obtain a rest where ar: "filter (\<lambda>x. signatureOf x = s) ms = a # rest"
    by (cases "filter (\<lambda>x. signatureOf x = s) ms") auto
  then have "a \<in> set (filter (\<lambda>x. signatureOf x = s) ms)" by simp
  then have "signatureOf a = s" by simp
  with ar show ?thesis by (simp add: newGroup_def)
qed

lemma signatures_grouped:
  "map signature (groupMutantsBySignature ms) = firstOccurrences (map signatureOf ms)"
proof -
  have "map (\<lambda>s. signature (groupOfInstances (filter (\<lambda>x. signatureOf x = s) ms)))
          (firstOccurrences (map signatureOf ms))
        = map (\<lambda>s. s) (firstOccurrences (map signatureOf ms))"
    by (intro map_cong refl signature_groupOfInstances) (simp add: set_firstOccurrences)
  then show ?thesis
    by (simp add: groupMutantsBySignature_closed comp_def)
qed

lemma sameGroup_iff:
  assumes "a \<in> set ms" "b \<in> set ms"
  shows "sameGroup (groupMutantsBySignature ms) a b \<longleftrightarrow> signatureOf a = signatureOf b"
proof -
  have "sameGroup (groupMutantsBySignature ms) a b \<longleftrightarrow>
        (\<exists>xs \<in> set (map instances (groupMutantsBySignature ms)). a \<in> set xs \<and> b \<in> set xs)"
    by (auto simp: sameGroup_def list_ex_iff)
  also have "\<dots> \<longleftrightarrow> (\<exists>s \<in> set (map signatureOf ms). signatureOf a = s \<and> signatureOf b = s)"
    using assms by (auto simp: instances_grouped set_firstOccurrences)
  also have "\<dots> \<longleftrightarrow> signatureOf a = signatureOf b"
    using assms by auto
  finally show ?thesis .
qed

section \<open>Grouping: partition of the input\<close>

lemma mset_concat_filters:
  "distinct ks \<Longrightarrow>
   mset (concat (map (\<lambda>s. filter (\<lambda>x. f x = s) ms) ks)) = mset (filter (\<lambda>x. f x \<in> set ks) ms)"
proof (induction ks)
  case Nil
  then show ?case by simp
next
  case (Cons k ks)
  then have k: "k \<notin> set ks" and d: "distinct ks" by simp_all
  have "mset (filter (\<lambda>x. f x = k) ms) + mset (filter (\<lambda>x. f x \<in> set ks) ms)
      = mset (filter (\<lambda>x. f x \<in> set (k # ks)) ms)"
    using k by (induction ms) auto
  with Cons.IH [OF d] show ?case by simp
qed

lemma mset_instances_grouped:
  "mset (concat (map instances (groupMutantsBySignature ms))) = mset ms"
proof -
  have "filter (\<lambda>x. signatureOf x \<in> set (firstOccurrences (map signatureOf ms))) ms = ms"
    by (simp add: set_firstOccurrences)
  then show ?thesis
    by (simp add: instances_grouped mset_concat_filters distinct_firstOccurrences)
qed

lemma length_grouped: "length (groupMutantsBySignature ms) = length (firstOccurrences (map signatureOf ms))"
  by (simp add: groupMutantsBySignature_closed)

lemma nth_instances_grouped:
  "i < length (groupMutantsBySignature ms) \<Longrightarrow>
   instances (groupMutantsBySignature ms ! i) =
     filter (\<lambda>x. signatureOf x = firstOccurrences (map signatureOf ms) ! i) ms"
  by (simp add: groupMutantsBySignature_closed instances_groupOfInstances)

lemma instances_nonempty:
  assumes "g \<in> set (groupMutantsBySignature ms)"
  shows "instances g \<noteq> []"
proof -
  from assms have "instances g \<in> set (map instances (groupMutantsBySignature ms))"
    by simp
  then obtain s where s: "s \<in> set (map signatureOf ms)"
    and g: "instances g = filter (\<lambda>x. signatureOf x = s) ms"
    by (auto simp: instances_grouped set_firstOccurrences)
  from s have "filter (\<lambda>x. signatureOf x = s) ms \<noteq> []"
    by (force simp: filter_empty_conv image_iff)
  with g show ?thesis by simp
qed

lemma unique_group_index:
  assumes "m \<in> set ms"
  shows "\<exists>!i. i < length (groupMutantsBySignature ms) \<and>
               m \<in> set (instances (groupMutantsBySignature ms ! i))"
proof -
  let ?ks = "firstOccurrences (map signatureOf ms)"
  from assms have "signatureOf m \<in> set ?ks"
    by (simp add: set_firstOccurrences)
  then obtain i where i: "i < length ?ks" "?ks ! i = signatureOf m"
    by (auto simp: in_set_conv_nth)
  show ?thesis
  proof (rule ex1I [of _ i])
    show "i < length (groupMutantsBySignature ms) \<and>
          m \<in> set (instances (groupMutantsBySignature ms ! i))"
      using i assms by (simp add: length_grouped nth_instances_grouped)
  next
    fix j
    assume j: "j < length (groupMutantsBySignature ms) \<and>
               m \<in> set (instances (groupMutantsBySignature ms ! j))"
    then have jl: "j < length ?ks"
      by (simp add: length_grouped)
    from j have "m \<in> set (filter (\<lambda>x. signatureOf x = ?ks ! j) ms)"
      using nth_instances_grouped [of j ms] by simp
    then have "?ks ! j = signatureOf m"
      by simp
    with i have "?ks ! j = ?ks ! i"
      by simp
    with i jl show "j = i"
      using distinct_firstOccurrences [of "map signatureOf ms"]
      by (metis nth_eq_iff_index_eq)
  qed
qed

text \<open>
  C4. The groups partition the input: the instance counts add up to the length of the
  input, the instances of all groups together are the input as a multiset, no group is
  empty, and every input mutant is an instance of exactly one group (by position in the
  result).
\<close>

theorem groupMutantsBySignature_partition:
  "sum_list (map (\<lambda>g. length (instances g)) (groupMutantsBySignature ms)) = length ms
   \<and> mset (concat (map instances (groupMutantsBySignature ms))) = mset ms
   \<and> (\<forall>g \<in> set (groupMutantsBySignature ms). length (instances g) \<ge> 1)
   \<and> (\<forall>m \<in> set ms. \<exists>!i. i < length (groupMutantsBySignature ms) \<and>
                            m \<in> set (instances (groupMutantsBySignature ms ! i)))"
proof -
  have "sum_list (map (\<lambda>g. length (instances g)) (groupMutantsBySignature ms))
      = length (concat (map instances (groupMutantsBySignature ms)))"
    by (simp add: length_concat comp_def)
  also have "\<dots> = size (mset (concat (map instances (groupMutantsBySignature ms))))"
    by simp
  also have "\<dots> = length ms"
    by (simp only: mset_instances_grouped size_mset)
  finally have total: "sum_list (map (\<lambda>g. length (instances g)) (groupMutantsBySignature ms)) = length ms" .
  have nonempty: "\<forall>g \<in> set (groupMutantsBySignature ms). length (instances g) \<ge> 1"
    using instances_nonempty by (auto simp: Suc_le_eq)
  show ?thesis
    using total nonempty mset_instances_grouped unique_group_index by blast
qed

theorem groupMutantsBySignature_partition_witness:
  "sum_list (map (\<lambda>g. length (instances g)) (groupMutantsBySignature [exampleA, exampleC, exampleB])) = 3
   \<and> map (length \<circ> instances) (groupMutantsBySignature [exampleA, exampleC, exampleB]) = [2, 1]
   \<and> mset (concat (map instances (groupMutantsBySignature [exampleA, exampleC, exampleB])))
       = mset [exampleA, exampleC, exampleB]"
proof -
  have "map (length \<circ> instances) (groupMutantsBySignature [exampleA, exampleC, exampleB]) = [2, 1]"
    by code_simp
  with groupMutantsBySignature_partition [of "[exampleA, exampleC, exampleB]"]
  show ?thesis by simp
qed

section \<open>Grouping: which mutants share a group\<close>

lemma split_at_delimiter:
  assumes "d \<notin> set a" and "d \<notin> set a'" and "a @ d # r = a' @ d # r'"
  shows "a = a' \<and> r = r'"
  using assms
proof (induction a arbitrary: a')
  case Nil
  then show ?case by (cases a') auto
next
  case (Cons x a)
  then show ?case by (cases a') auto
qed

lemma signature_fields:
  assumes "delimiterFree a" and "delimiterFree b" and "signatureOf a = signatureOf b"
  shows "mutatorName a = mutatorName b \<and> original a = original b \<and>
         replacement a = replacement b \<and> normalized a = normalized b"
proof -
  let ?d = "CHR ''|''"
  from assms(1) have a: "?d \<notin> set (mutatorName a)" "?d \<notin> set (original a)"
      "?d \<notin> set (replacement a)"
    by (simp_all add: delimiterFree_def)
  from assms(2) have b: "?d \<notin> set (mutatorName b)" "?d \<notin> set (original b)"
      "?d \<notin> set (replacement b)"
    by (simp_all add: delimiterFree_def)
  from assms(3) have "mutatorName a @ ?d # (original a @ ?d # replacement a @ ?d # normalized a)
      = mutatorName b @ ?d # (original b @ ?d # replacement b @ ?d # normalized b)"
    by (simp add: signatureOf_def)
  from split_at_delimiter [OF a(1) b(1) this]
  have k: "mutatorName a = mutatorName b"
    and r1: "original a @ ?d # (replacement a @ ?d # normalized a)
           = original b @ ?d # (replacement b @ ?d # normalized b)"
    by simp_all
  from split_at_delimiter [OF a(2) b(2) r1]
  have o: "original a = original b"
    and r2: "replacement a @ ?d # normalized a = replacement b @ ?d # normalized b"
    by simp_all
  from split_at_delimiter [OF a(3) b(3) r2]
  have "replacement a = replacement b" and "normalized a = normalized b"
    by simp_all
  with k o show ?thesis by simp
qed

lemma signatureOf_relocated:
  "signatureOf (m\<lparr>fileName := f, location := l\<rparr>) = signatureOf m"
  by (simp add: signatureOf_def normalized_def exprText_def split: option.splits)

text \<open>
  C3, as the code has it. Two mutants of the input land in the same group exactly when
  their signature strings are equal. Equal kind, original, replacement and normalised
  text give equal signatures, hence the same group; a copy of a mutant that differs in
  file name and location only is grouped as the mutant is. The converse, from the same
  group to equal fields, holds when the delimiter occurs in none of kind, original and
  replacement of the two mutants.
\<close>

theorem same_group_iff_same_signature:
  assumes "a \<in> set ms" and "b \<in> set ms"
  shows "(sameGroup (groupMutantsBySignature ms) a b \<longleftrightarrow> signatureOf a = signatureOf b)
    \<and> (mutatorName a = mutatorName b \<and> original a = original b \<and>
        replacement a = replacement b \<and> normalized a = normalized b
        \<longrightarrow> sameGroup (groupMutantsBySignature ms) a b)
    \<and> (b\<lparr>fileName := f, location := l\<rparr> \<in> set ms
        \<longrightarrow> (sameGroup (groupMutantsBySignature ms) a (b\<lparr>fileName := f, location := l\<rparr>)
             \<longleftrightarrow> sameGroup (groupMutantsBySignature ms) a b))
    \<and> (delimiterFree a \<and> delimiterFree b \<and> sameGroup (groupMutantsBySignature ms) a b
        \<longrightarrow> mutatorName a = mutatorName b \<and> original a = original b \<and>
            replacement a = replacement b \<and> normalized a = normalized b)"
proof -
  have iff: "sameGroup (groupMutantsBySignature ms) a b \<longleftrightarrow> signatureOf a = signatureOf b"
    using assms by (rule sameGroup_iff)
  have fields: "mutatorName a = mutatorName b \<and> original a = original b \<and>
        replacement a = replacement b \<and> normalized a = normalized b
        \<longrightarrow> sameGroup (groupMutantsBySignature ms) a b"
    using iff by (simp add: signatureOf_def)
  have moved: "b\<lparr>fileName := f, location := l\<rparr> \<in> set ms
        \<longrightarrow> (sameGroup (groupMutantsBySignature ms) a (b\<lparr>fileName := f, location := l\<rparr>)
             \<longleftrightarrow> sameGroup (groupMutantsBySignature ms) a b)"
    using iff sameGroup_iff [OF assms(1), of "b\<lparr>fileName := f, location := l\<rparr>"]
    by (simp add: signatureOf_relocated)
  have conv: "delimiterFree a \<and> delimiterFree b \<and> sameGroup (groupMutantsBySignature ms) a b
        \<longrightarrow> mutatorName a = mutatorName b \<and> original a = original b \<and>
            replacement a = replacement b \<and> normalized a = normalized b"
    using iff signature_fields [of a b] by blast
  from iff fields moved conv show ?thesis by blast
qed

theorem same_group_iff_same_signature_witness:
  "sameGroup (groupMutantsBySignature [exampleA, exampleC, exampleB]) exampleA exampleB
   \<and> signatureOf exampleA = signatureOf exampleB
   \<and> delimiterFree exampleA \<and> delimiterFree exampleB
   \<and> mutatorName exampleA = mutatorName exampleB \<and> original exampleA = original exampleB
   \<and> replacement exampleA = replacement exampleB \<and> normalized exampleA = normalized exampleB
   \<and> fileName exampleA \<noteq> fileName exampleB
   \<and> \<not> sameGroup (groupMutantsBySignature [exampleA, exampleC, exampleB]) exampleA exampleC"
proof -
  have a: "exampleA \<in> set [exampleA, exampleC, exampleB]" by simp
  have b: "exampleB \<in> set [exampleA, exampleC, exampleB]" by simp
  have c: "exampleC \<in> set [exampleA, exampleC, exampleB]" by simp
  have sig: "signatureOf exampleA = signatureOf exampleB" by code_simp
  have nsig: "signatureOf exampleA \<noteq> signatureOf exampleC" by code_simp
  have df: "delimiterFree exampleA \<and> delimiterFree exampleB" by code_simp
  have fn: "fileName exampleA \<noteq> fileName exampleB" by code_simp
  from same_group_iff_same_signature [OF a b] sig df
  have "sameGroup (groupMutantsBySignature [exampleA, exampleC, exampleB]) exampleA exampleB
    \<and> mutatorName exampleA = mutatorName exampleB \<and> original exampleA = original exampleB
    \<and> replacement exampleA = replacement exampleB \<and> normalized exampleA = normalized exampleB"
    by blast
  moreover from same_group_iff_same_signature [OF a c] nsig
  have "\<not> sameGroup (groupMutantsBySignature [exampleA, exampleC, exampleB]) exampleA exampleC"
    by blast
  ultimately show ?thesis using sig df fn by blast
qed

text \<open>
  The claim as stated fails: the two hand-built mutants differ in original and in
  replacement, and the delimiter-joined signature puts them in one group.
\<close>

theorem same_group_counterexample:
  "map instances (groupMutantsBySignature [collideA, collideB]) = [[collideA, collideB]]
   \<and> sameGroup (groupMutantsBySignature [collideA, collideB]) collideA collideB
   \<and> original collideA \<noteq> original collideB
   \<and> replacement collideA \<noteq> replacement collideB"
  by code_simp

section \<open>Grouping: order of the groups and their representatives\<close>

lemma find_filter:
  "List.find P xs = (case filter P xs of [] \<Rightarrow> None | x # rest \<Rightarrow> Some x)"
  by (induction xs) auto

lemma representative_groupOfInstances:
  "representative (groupOfInstances (filter P ms)) = List.find P ms"
  by (cases "filter P ms") (simp_all add: representative_def find_filter)

lemma representatives_grouped:
  "map representative (groupMutantsBySignature ms) =
     map (\<lambda>s. List.find (\<lambda>m. signatureOf m = s) ms) (firstOccurrences (map signatureOf ms))"
  by (simp add: groupMutantsBySignature_closed comp_def representative_groupOfInstances)

lemma firstOccurrences_sorted:
  "sorted_wrt (\<lambda>s t. firstIndex (\<lambda>x. x = s) xs < firstIndex (\<lambda>x. x = t) xs) (firstOccurrences xs)"
proof (induction xs)
  case Nil
  then show ?case by simp
next
  case (Cons x xs)
  let ?R = "\<lambda>ys s t. firstIndex (\<lambda>x. x = s) ys < firstIndex (\<lambda>x. x = t) ys"
  have "sorted_wrt (?R xs) (filter (\<lambda>y. y \<noteq> x) (firstOccurrences xs))"
    using Cons.IH by (rule sorted_wrt_filter)
  then have "sorted_wrt (?R (x # xs)) (filter (\<lambda>y. y \<noteq> x) (firstOccurrences xs))"
    by (rule sorted_wrt_mono_rel [rotated]) (auto simp: firstIndex_def)
  moreover have "\<forall>t \<in> set (filter (\<lambda>y. y \<noteq> x) (firstOccurrences xs)). ?R (x # xs) x t"
    by (auto simp: firstIndex_def)
  ultimately show ?case by simp
qed

lemma firstIndex_map:
  "firstIndex (\<lambda>x. x = s) (map f xs) = firstIndex (\<lambda>m. f m = s) xs"
  by (simp add: firstIndex_def takeWhile_map comp_def)

lemma groups_sorted_by_first_index:
  "sorted_wrt (\<lambda>g h. firstIndex (\<lambda>m. signatureOf m = signature g) ms
                      < firstIndex (\<lambda>m. signatureOf m = signature h) ms)
     (groupMutantsBySignature ms)"
proof -
  have "sorted_wrt (\<lambda>s t. firstIndex (\<lambda>m. signatureOf m = s) ms < firstIndex (\<lambda>m. signatureOf m = t) ms)
          (map signature (groupMutantsBySignature ms))"
    using firstOccurrences_sorted [of "map signatureOf ms"]
    by (simp add: signatures_grouped firstIndex_map)
  then show ?thesis
    by (simp add: sorted_wrt_map)
qed

text \<open>
  C6. The signatures of the groups, in order, are the distinct signatures of the input in
  the order of their first occurrence; the first instance of each group is the earliest
  input mutant with the group's signature; and along the result the position in the
  input of the first mutant with the group's signature strictly increases.
\<close>

theorem groups_in_first_seen_order:
  "map signature (groupMutantsBySignature ms) = firstOccurrences (map signatureOf ms)
   \<and> map representative (groupMutantsBySignature ms) =
       map (\<lambda>s. List.find (\<lambda>m. signatureOf m = s) ms) (firstOccurrences (map signatureOf ms))
   \<and> sorted_wrt (\<lambda>g h. firstIndex (\<lambda>m. signatureOf m = signature g) ms
                        < firstIndex (\<lambda>m. signatureOf m = signature h) ms)
       (groupMutantsBySignature ms)"
  using signatures_grouped representatives_grouped groups_sorted_by_first_index by blast

theorem groups_in_first_seen_order_witness:
  "map signature (groupMutantsBySignature [exampleA, exampleC, exampleB])
     = [signatureOf exampleA, signatureOf exampleC]
   \<and> map representative (groupMutantsBySignature [exampleA, exampleC, exampleB])
     = [Some exampleA, Some exampleC]"
proof -
  have "firstOccurrences (map signatureOf [exampleA, exampleC, exampleB])
      = [signatureOf exampleA, signatureOf exampleC]"
    by code_simp
  moreover have "map (\<lambda>s. List.find (\<lambda>m. signatureOf m = s) [exampleA, exampleC, exampleB])
      [signatureOf exampleA, signatureOf exampleC] = [Some exampleA, Some exampleC]"
    by code_simp
  ultimately show ?thesis
    using groups_in_first_seen_order [of "[exampleA, exampleC, exampleB]"] by simp
qed

section \<open>Grouping: the empty expression text\<close>

text \<open>
  C10. A mutant whose expression text is present and empty gets the signature of a
  mutant with no expression text and the same kind, original and replacement: both use
  the original in place of the expression text, and both land in the same group.
\<close>

theorem empty_expression_text_as_absent:
  assumes "expressionText a = Some []" and "expressionText b = None"
    and "mutatorName a = mutatorName b" and "original a = original b"
    and "replacement a = replacement b"
  shows "exprText a = original a \<and> exprText b = original b
    \<and> signatureOf a = signatureOf b
    \<and> (a \<in> set ms \<and> b \<in> set ms \<longrightarrow> sameGroup (groupMutantsBySignature ms) a b)"
proof -
  from assms have e: "exprText a = original a \<and> exprText b = original b"
    by (simp add: exprText_def)
  with assms have s: "signatureOf a = signatureOf b"
    by (simp add: signatureOf_def normalized_def)
  with e show ?thesis
    using sameGroup_iff [of a ms b] by blast
qed

theorem empty_expression_text_as_absent_witness:
  "expressionText exampleEmpty = Some [] \<and> expressionText exampleAbsent = None
   \<and> signatureOf exampleEmpty = signatureOf exampleAbsent
   \<and> signatureOf exampleEmpty = ''BooleanLiteral|true|false|true''
   \<and> sameGroup (groupMutantsBySignature [exampleEmpty, exampleAbsent]) exampleEmpty exampleAbsent"
proof -
  have h1: "expressionText exampleEmpty = Some []" by code_simp
  have h2: "expressionText exampleAbsent = None" by code_simp
  have h3: "mutatorName exampleEmpty = mutatorName exampleAbsent" by code_simp
  have h4: "original exampleEmpty = original exampleAbsent" by code_simp
  have h5: "replacement exampleEmpty = replacement exampleAbsent" by code_simp
  have v: "signatureOf exampleEmpty = ''BooleanLiteral|true|false|true''" by code_simp
  from empty_expression_text_as_absent [OF h1 h2 h3 h4 h5, of "[exampleEmpty, exampleAbsent]"]
  show ?thesis using h1 h2 v by simp
qed

section \<open>Collectors: uniform steps\<close>

lemma numberedFrom_Nil: "numberedFrom file k []"
  by (simp add: numberedFrom_def)

lemma numberedFrom_single: "mutantId m = makeId file (Suc k) \<Longrightarrow> numberedFrom file k [m]"
  by (simp add: numberedFrom_def)

lemma numberedFrom_append:
  assumes "numberedFrom file k a" and "numberedFrom file (k + length a) b"
  shows "numberedFrom file k (a @ b)"
proof -
  let ?m = "Suc (k + length a)"
  have e: "[Suc k ..< ?m + length b] = [Suc k ..< ?m] @ [?m ..< ?m + length b]"
    by (rule upt_add_eq_append) simp
  have s: "Suc (k + length a + length b) = ?m + length b"
    and t: "Suc (k + length (a @ b)) = ?m + length b"
    by simp_all
  from assms(1) have a: "map mutantId a = map (makeId file) [Suc k ..< ?m]"
    by (simp only: numberedFrom_def)
  from assms(2) have b: "map mutantId b = map (makeId file) [?m ..< ?m + length b]"
    by (simp only: numberedFrom_def s)
  have "map mutantId (a @ b) = map (makeId file) [Suc k ..< ?m + length b]"
    by (simp only: map_append a b e)
  then show ?thesis
    by (simp only: numberedFrom_def t)
qed

lemma uniformStep_id: "uniformStep file (\<lambda>st. st)"
  by (simp add: uniformStep_def numberedFrom_Nil)

lemma uniformStepD:
  assumes "uniformStep file f"
  shows "f (ms, k) = (ms @ fst (f ([], k)), k + length (fst (f ([], k))))"
    and "numberedFrom file k (fst (f ([], k)))"
    and "list_all (\<lambda>m. fileName m = file) (fst (f ([], k)))"
    and "map eraseId (fst (f ([], k))) = map eraseId (fst (f ([], 0)))"
proof -
  from assms have all: "fst (f (ms, k)) = ms @ fst (f ([], k))
        \<and> snd (f (ms, k)) = k + length (fst (f ([], k)))
        \<and> numberedFrom file k (fst (f ([], k)))
        \<and> list_all (\<lambda>m. fileName m = file) (fst (f ([], k)))
        \<and> map eraseId (fst (f ([], k))) = map eraseId (fst (f ([], 0)))"
    unfolding uniformStep_def by blast
  then show "f (ms, k) = (ms @ fst (f ([], k)), k + length (fst (f ([], k))))"
    by (simp only: prod_eq_iff fst_conv snd_conv)
  from all show "numberedFrom file k (fst (f ([], k)))" by blast
  from all show "list_all (\<lambda>m. fileName m = file) (fst (f ([], k)))" by blast
  from all show "map eraseId (fst (f ([], k))) = map eraseId (fst (f ([], 0)))" by blast
qed

lemma uniformStep_length:
  assumes "uniformStep file f"
  shows "length (fst (f ([], k))) = length (fst (f ([], 0)))"
  using uniformStepD(4) [OF assms, of k] by (metis length_map)

lemma uniformStep_comp:
  assumes f: "uniformStep file f" and g: "uniformStep file g"
  shows "uniformStep file (\<lambda>st. g (f st))"
proof -
  let ?a = "\<lambda>k. fst (f ([], k))"
  let ?b = "\<lambda>k. fst (g ([], k))"
  have comp: "g (f (ms, k)) = (ms @ ?a k @ ?b (k + length (?a k)),
                               k + length (?a k) + length (?b (k + length (?a k))))" for ms k
    by (subst uniformStepD(1) [OF f], subst uniformStepD(1) [OF g]) simp
  have num: "numberedFrom file k (?a k @ ?b (k + length (?a k)))" for k
    by (intro numberedFrom_append uniformStepD(2) [OF f] uniformStepD(2) [OF g])
  have fn: "list_all (\<lambda>m. fileName m = file) (?a k @ ?b (k + length (?a k)))" for k
    using uniformStepD(3) [OF f, of k] uniformStepD(3) [OF g, of "k + length (?a k)"] by simp
  have era: "map eraseId (?a k @ ?b (k + length (?a k)))
           = map eraseId (?a 0 @ ?b (0 + length (?a 0)))" for k
  proof -
    have "map eraseId (?b (k + length (?a k))) = map eraseId (?b 0)"
      by (rule uniformStepD(4) [OF g])
    moreover have "map eraseId (?b (0 + length (?a 0))) = map eraseId (?b 0)"
      by (rule uniformStepD(4) [OF g])
    moreover have "map eraseId (?a k) = map eraseId (?a 0)"
      by (rule uniformStepD(4) [OF f])
    ultimately show ?thesis by simp
  qed
  show ?thesis
    unfolding uniformStep_def
  proof (intro allI conjI)
    fix ms k
    show "fst (g (f (ms, k))) = ms @ fst (g (f ([], k)))"
      by (simp add: comp)
    show "snd (g (f (ms, k))) = k + length (fst (g (f ([], k))))"
      by (simp add: comp)
    show "numberedFrom file k (fst (g (f ([], k))))"
      using num [of k] by (simp add: comp)
    show "list_all (\<lambda>m. fileName m = file) (fst (g (f ([], k))))"
      using fn [of k] by (simp add: comp)
    show "map eraseId (fst (g (f ([], k)))) = map eraseId (fst (g (f ([], 0))))"
      using era [of k] by (simp add: comp)
  qed
qed

lemma uniformStep_foldl:
  "(\<And>x. x \<in> set xs \<Longrightarrow> uniformStep file (\<lambda>st. h st x)) \<Longrightarrow>
   uniformStep file (\<lambda>st. foldl h st xs)"
proof (induction xs)
  case Nil
  then show ?case by (simp add: uniformStep_id)
next
  case (Cons x xs)
  have "uniformStep file (\<lambda>st. (\<lambda>st. foldl h st xs) ((\<lambda>st. h st x) st))"
    by (rule uniformStep_comp) (simp_all add: Cons)
  then show ?case by simp
qed

lemma uniformStep_push:
  assumes "\<And>ms k. step (ms, k) = (ms @ [r k], Suc k)"
    and "\<And>k. mutantId (r k) = makeId file (Suc k)"
    and "\<And>k. fileName (r k) = file"
    and "\<And>k. eraseId (r k) = eraseId (r 0)"
  shows "uniformStep file step"
  unfolding uniformStep_def
proof (intro allI conjI)
  fix ms k
  show "fst (step (ms, k)) = ms @ fst (step ([], k))"
    by (simp add: assms(1))
  show "snd (step (ms, k)) = k + length (fst (step ([], k)))"
    by (simp add: assms(1))
  show "numberedFrom file k (fst (step ([], k)))"
    by (simp add: assms(1) assms(2) numberedFrom_single)
  show "list_all (\<lambda>m. fileName m = file) (fst (step ([], k)))"
    by (simp add: assms(1) assms(3))
  show "map eraseId (fst (step ([], k))) = map eraseId (fst (step ([], 0)))"
    by (simp add: assms(1)) (rule assms(4))
qed

lemma uniformStep_binaryPush: "uniformStep file (\<lambda>st. binaryPush sf file n t st repl)"
  by (rule uniformStep_push [where r = "\<lambda>k. last (fst (binaryPush sf file n t ([], k) repl))"])
     (simp_all add: binaryPush_def Let_def eraseId_def)

lemma uniformStep_unaryPush: "uniformStep file (\<lambda>st. unaryPush sf file n orig st repl)"
  by (rule uniformStep_push [where r = "\<lambda>k. last (fst (unaryPush sf file n orig ([], k) repl))"])
     (simp_all add: unaryPush_def Let_def eraseId_def)

lemma uniformStep_booleanPush: "uniformStep file (booleanPush sf file n)"
  by (rule uniformStep_push [where r = "\<lambda>k. last (fst (booleanPush sf file n ([], k)))"])
     (simp_all add: booleanPush_def Let_def eraseId_def)

lemma uniformStep_conditionalPush: "uniformStep file (conditionalPush sf file n c repl branch)"
  by (rule uniformStep_push [where r = "\<lambda>k. last (fst (conditionalPush sf file n c repl branch ([], k)))"])
     (simp_all add: conditionalPush_def Let_def eraseId_def)

lemma uniformStep_binaryVisit: "uniformStep file (binaryVisit sf file n)"
proof (cases n)
  case (BinaryExpression i l t r)
  show ?thesis
  proof (cases "map_of BINARY_OPERATOR_MUTATIONS (nodeText t)")
    case None
    with BinaryExpression have "binaryVisit sf file n = (\<lambda>st. st)"
      by (intro ext) simp
    then show ?thesis by (simp add: uniformStep_id)
  next
    case (Some mutations)
    have "uniformStep file (\<lambda>st. foldl (binaryPush sf file n t) st mutations)"
      by (rule uniformStep_foldl) (rule uniformStep_binaryPush)
    moreover from BinaryExpression Some
    have "binaryVisit sf file n = (\<lambda>st. foldl (binaryPush sf file n t) st mutations)"
      by (intro ext) simp
    ultimately show ?thesis by simp
  qed
next
  case (PrefixUnaryExpression i k operand)
  then have "binaryVisit sf file n = (\<lambda>st. st)" by (intro ext) simp
  then show ?thesis by (simp add: uniformStep_id)
next
  case (TrueLiteral i)
  then have "binaryVisit sf file n = (\<lambda>st. st)" by (intro ext) simp
  then show ?thesis by (simp add: uniformStep_id)
next
  case (FalseLiteral i)
  then have "binaryVisit sf file n = (\<lambda>st. st)" by (intro ext) simp
  then show ?thesis by (simp add: uniformStep_id)
next
  case (IfStatement i c t e)
  then have "binaryVisit sf file n = (\<lambda>st. st)" by (intro ext) simp
  then show ?thesis by (simp add: uniformStep_id)
next
  case (OtherNode i cs)
  then have "binaryVisit sf file n = (\<lambda>st. st)" by (intro ext) simp
  then show ?thesis by (simp add: uniformStep_id)
qed

lemma uniformStep_unaryVisit: "uniformStep file (unaryVisit sf file n)"
proof (cases n)
  case (PrefixUnaryExpression i k operand)
  show ?thesis
  proof (cases "map_of UNARY_OPERATOR_MUTATIONS k")
    case None
    with PrefixUnaryExpression have "unaryVisit sf file n = (\<lambda>st. st)"
      by (intro ext) simp
    then show ?thesis by (simp add: uniformStep_id)
  next
    case (Some entry)
    obtain orig replacements where e: "entry = (orig, replacements)"
      by (cases entry)
    have "uniformStep file (\<lambda>st. foldl (unaryPush sf file n orig) st replacements)"
      by (rule uniformStep_foldl) (rule uniformStep_unaryPush)
    moreover from PrefixUnaryExpression Some e
    have "unaryVisit sf file n = (\<lambda>st. foldl (unaryPush sf file n orig) st replacements)"
      by (intro ext) simp
    ultimately show ?thesis by simp
  qed
next
  case (BinaryExpression i l t r)
  then have "unaryVisit sf file n = (\<lambda>st. st)" by (intro ext) simp
  then show ?thesis by (simp add: uniformStep_id)
next
  case (TrueLiteral i)
  then have "unaryVisit sf file n = (\<lambda>st. st)" by (intro ext) simp
  then show ?thesis by (simp add: uniformStep_id)
next
  case (FalseLiteral i)
  then have "unaryVisit sf file n = (\<lambda>st. st)" by (intro ext) simp
  then show ?thesis by (simp add: uniformStep_id)
next
  case (IfStatement i c t e)
  then have "unaryVisit sf file n = (\<lambda>st. st)" by (intro ext) simp
  then show ?thesis by (simp add: uniformStep_id)
next
  case (OtherNode i cs)
  then have "unaryVisit sf file n = (\<lambda>st. st)" by (intro ext) simp
  then show ?thesis by (simp add: uniformStep_id)
qed

lemma uniformStep_booleanVisit: "uniformStep file (booleanVisit sf file n)"
proof (cases n)
  case (TrueLiteral i)
  then have "booleanVisit sf file n = booleanPush sf file n" by (intro ext) simp
  then show ?thesis by (simp add: uniformStep_booleanPush)
next
  case (FalseLiteral i)
  then have "booleanVisit sf file n = booleanPush sf file n" by (intro ext) simp
  then show ?thesis by (simp add: uniformStep_booleanPush)
next
  case (BinaryExpression i l t r)
  then have "booleanVisit sf file n = (\<lambda>st. st)" by (intro ext) simp
  then show ?thesis by (simp add: uniformStep_id)
next
  case (PrefixUnaryExpression i k operand)
  then have "booleanVisit sf file n = (\<lambda>st. st)" by (intro ext) simp
  then show ?thesis by (simp add: uniformStep_id)
next
  case (IfStatement i c t e)
  then have "booleanVisit sf file n = (\<lambda>st. st)" by (intro ext) simp
  then show ?thesis by (simp add: uniformStep_id)
next
  case (OtherNode i cs)
  then have "booleanVisit sf file n = (\<lambda>st. st)" by (intro ext) simp
  then show ?thesis by (simp add: uniformStep_id)
qed

lemma uniformStep_conditionalVisit: "uniformStep file (conditionalVisit sf file n)"
proof (cases n)
  case (IfStatement i c t e)
  have "uniformStep file (\<lambda>st. conditionalPush sf file n c ''false (always else-branch)'' ''else-branch''
          (conditionalPush sf file n c ''true (always if-branch)'' ''if-branch'' st))"
    by (rule uniformStep_comp) (rule uniformStep_conditionalPush)+
  moreover from IfStatement
  have "conditionalVisit sf file n =
      (\<lambda>st. conditionalPush sf file n c ''false (always else-branch)'' ''else-branch''
          (conditionalPush sf file n c ''true (always if-branch)'' ''if-branch'' st))"
    by (intro ext) simp
  ultimately show ?thesis by simp
next
  case (BinaryExpression i l t r)
  then have "conditionalVisit sf file n = (\<lambda>st. st)" by (intro ext) simp
  then show ?thesis by (simp add: uniformStep_id)
next
  case (PrefixUnaryExpression i k operand)
  then have "conditionalVisit sf file n = (\<lambda>st. st)" by (intro ext) simp
  then show ?thesis by (simp add: uniformStep_id)
next
  case (TrueLiteral i)
  then have "conditionalVisit sf file n = (\<lambda>st. st)" by (intro ext) simp
  then show ?thesis by (simp add: uniformStep_id)
next
  case (FalseLiteral i)
  then have "conditionalVisit sf file n = (\<lambda>st. st)" by (intro ext) simp
  then show ?thesis by (simp add: uniformStep_id)
next
  case (OtherNode i cs)
  then have "conditionalVisit sf file n = (\<lambda>st. st)" by (intro ext) simp
  then show ?thesis by (simp add: uniformStep_id)
qed

text \<open>A traversal with a uniform callback, started on an empty array.\<close>

lemma traversal_uniform:
  assumes "\<And>n. uniformStep file (V n)"
  shows "uniformStep file (forEachDescendant sf V)"
proof -
  have "uniformStep file (\<lambda>st. foldl (\<lambda>s n. V n s) st (descendants sf))"
    by (rule uniformStep_foldl) (rule assms)
  then show ?thesis
    by (simp add: forEachDescendant_def [abs_def])
qed

lemma traversal_erased:
  assumes "\<And>n. uniformStep file (V n)"
  shows "map eraseId (fst (foldl (\<lambda>s n. V n s) ([], k) ns))
       = concat (map (\<lambda>n. map eraseId (fst (V n ([], 0)))) ns)"
proof (induction ns rule: rev_induct)
  case Nil
  then show ?case by simp
next
  case (snoc n ns)
  obtain ms j where st: "foldl (\<lambda>s n. V n s) ([], k) ns = (ms, j)"
    by (cases "foldl (\<lambda>s n. V n s) ([], k) ns")
  have "fst (V n (ms, j)) = ms @ fst (V n ([], j))"
    by (simp add: uniformStepD(1) [OF assms, of n ms j])
  moreover have "map eraseId (fst (V n ([], j))) = map eraseId (fst (V n ([], 0)))"
    by (rule uniformStepD(4) [OF assms])
  ultimately show ?case using snoc st by simp
qed

lemma numbered_collector:
  assumes "\<And>n. uniformStep file (V n)"
  shows "numberedFrom file k (fst (forEachDescendant sf V ([], k)))"
    and "list_all (\<lambda>m. fileName m = file) (fst (forEachDescendant sf V ([], k)))"
    and "map eraseId (fst (forEachDescendant sf V ([], k)))
           = concat (map (\<lambda>n. map eraseId (fst (V n ([], 0)))) (descendants sf))"
proof -
  have u: "uniformStep file (forEachDescendant sf V)"
    by (rule traversal_uniform) (rule assms)
  show "numberedFrom file k (fst (forEachDescendant sf V ([], k)))"
    by (rule uniformStepD(2) [OF u])
  show "list_all (\<lambda>m. fileName m = file) (fst (forEachDescendant sf V ([], k)))"
    by (rule uniformStepD(3) [OF u])
  show "map eraseId (fst (forEachDescendant sf V ([], k)))
           = concat (map (\<lambda>n. map eraseId (fst (V n ([], 0)))) (descendants sf))"
    using traversal_erased [OF assms] by (simp add: forEachDescendant_def)
qed

text \<open>A field that does not depend on the identifier, read off a pass.\<close>

lemma projection_from_erased:
  assumes "map eraseId ms = concat (map (\<lambda>n. map eraseId (F n)) ns)"
    and "\<And>m. g (eraseId m) = g m"
  shows "map g ms = concat (map (\<lambda>n. map g (F n)) ns)"
proof -
  have "map g ms = map g (map eraseId ms)"
    by (simp add: assms(2))
  also have "\<dots> = concat (map (\<lambda>n. map g (map eraseId (F n))) ns)"
    by (simp only: assms(1) map_concat map_map comp_def)
  also have "\<dots> = concat (map (\<lambda>n. map g (F n)) ns)"
    by (simp add: assms(2) comp_def)
  finally show ?thesis .
qed

section \<open>Identifiers\<close>

lemma of_char_digitChar: "d < 10 \<Longrightarrow> of_char (digitChar d) = 48 + d"
  by (simp add: digitChar_def)

lemma digitChar_inj: "a < 10 \<Longrightarrow> b < 10 \<Longrightarrow> digitChar a = digitChar b \<Longrightarrow> a = b"
proof -
  assume a: "a < 10" and b: "b < 10" and e: "digitChar a = digitChar b"
  from e have "of_char (digitChar a) = (of_char (digitChar b) :: nat)" by (rule arg_cong)
  with a b show "a = b" by (simp only: of_char_digitChar add_left_cancel)
qed

lemma decimal_nonempty: "decimal n \<noteq> []"
  by (subst decimal.simps) simp

lemma decimal_inj: "decimal m = decimal n \<Longrightarrow> m = n"
proof (induction m arbitrary: n rule: decimal.induct)
  case (1 m)
  show ?case
  proof (cases "m < 10")
    case True
    show ?thesis
    proof (cases "n < 10")
      case n: True
      from "1.prems" True n have "digitChar m = digitChar n"
        by (simp add: decimal.simps [of m] decimal.simps [of n])
      with True n show ?thesis by (rule digitChar_inj)
    next
      case n: False
      from "1.prems" True n have "[digitChar m] = decimal (n div 10) @ [digitChar (n mod 10)]"
        by (simp add: decimal.simps [of m] decimal.simps [of n])
      then have "decimal (n div 10) = []" by simp
      with decimal_nonempty show ?thesis by blast
    qed
  next
    case False
    show ?thesis
    proof (cases "n < 10")
      case n: True
      from "1.prems" False n have "decimal (m div 10) @ [digitChar (m mod 10)] = [digitChar n]"
        by (simp add: decimal.simps [of m] decimal.simps [of n])
      then have "decimal (m div 10) = []" by simp
      with decimal_nonempty show ?thesis by blast
    next
      case n: False
      from "1.prems" False n
      have "decimal (m div 10) @ [digitChar (m mod 10)] = decimal (n div 10) @ [digitChar (n mod 10)]"
        by (simp add: decimal.simps [of m] decimal.simps [of n])
      then have d: "decimal (m div 10) = decimal (n div 10)"
        and c: "digitChar (m mod 10) = digitChar (n mod 10)"
        by simp_all
      from "1.IH" [OF False d] have "m div 10 = n div 10" .
      moreover from c have "m mod 10 = n mod 10"
        by (intro digitChar_inj) simp_all
      ultimately show ?thesis by (metis div_mult_mod_eq)
    qed
  qed
qed

lemma makeId_inj: "makeId file m = makeId file n \<Longrightarrow> m = n"
  by (simp add: makeId_def decimal_inj)

lemma numberedFrom_distinct:
  assumes "numberedFrom file k ms"
  shows "distinct (map mutantId ms)"
proof -
  have "inj_on (makeId file) (set [Suc k ..< Suc (k + length ms)])"
    by (rule inj_onI) (rule makeId_inj)
  then have "distinct (map (makeId file) [Suc k ..< Suc (k + length ms)])"
    by (simp only: distinct_map distinct_upt simp_thms)
  with assms show ?thesis by (simp only: numberedFrom_def)
qed

lemma numberedFrom_nth:
  assumes "numberedFrom file k ms" and "i < length ms"
  shows "mutantId (ms ! i) = makeId file (Suc (k + i))"
proof -
  from assms(2) have "mutantId (ms ! i) = map mutantId ms ! i" by simp
  also from assms(1) have "\<dots> = map (makeId file) [Suc k ..< Suc (k + length ms)] ! i"
    by (simp only: numberedFrom_def)
  also from assms(2) have "\<dots> = makeId file (Suc (k + i))"
    by (simp del: upt_Suc)
  finally show ?thesis .
qed

section \<open>The binary-expression pass on a relational operator\<close>

lemma collectBinaryMutations_erased:
  "map eraseId (collectBinaryMutations sf file) =
     concat (map (\<lambda>n. map eraseId (fst (binaryVisit sf file n ([], 0)))) (descendants sf))"
  unfolding collectBinaryMutations_def
  by (rule numbered_collector(3)) (rule uniformStep_binaryVisit)

lemma relational_entries:
  "map_of BINARY_OPERATOR_MUTATIONS ''>'' = Some [''>='', ''<'', ''<='']"
  "distinct [''>='', ''<'', ''<='']"
  "set [''>='', ''<'', ''<=''] = set [''>'', ''<'', ''>='', ''<=''] - {''>''}"
  "map_of BINARY_OPERATOR_MUTATIONS ''<'' = Some [''<='', ''>'', ''>='']"
  "distinct [''<='', ''>'', ''>='']"
  "set [''<='', ''>'', ''>=''] = set [''>'', ''<'', ''>='', ''<=''] - {''<''}"
  "map_of BINARY_OPERATOR_MUTATIONS ''>='' = Some [''>'', ''<'', ''<='']"
  "distinct [''>'', ''<'', ''<='']"
  "set [''>'', ''<'', ''<=''] = set [''>'', ''<'', ''>='', ''<=''] - {''>=''}"
  "map_of BINARY_OPERATOR_MUTATIONS ''<='' = Some [''<'', ''>'', ''>='']"
  "distinct [''<'', ''>'', ''>='']"
  "set [''<'', ''>'', ''>=''] = set [''>'', ''<'', ''>='', ''<=''] - {''<=''}"
  by code_simp+

lemma binaryVisit_relational:
  assumes "map_of BINARY_OPERATOR_MUTATIONS (nodeText t) = Some [r1, r2, r3]"
    and "nodeText t \<in> set [''>'', ''<'', ''>='', ''<='']"
  shows "\<exists>m1 m2 m3.
      binaryVisit sf file (BinaryExpression i l t r) (ms, k) = (ms @ [m1, m2, m3], k + 3)
      \<and> mutatorName m1 = ''BoundaryCondition'' \<and> mutatorName m2 = ''BoundaryCondition''
      \<and> mutatorName m3 = ''BoundaryCondition''
      \<and> original m1 = nodeText t \<and> original m2 = nodeText t \<and> original m3 = nodeText t
      \<and> [replacement m1, replacement m2, replacement m3] = [r1, r2, r3]"
  using assms by (simp add: binaryPush_def Let_def)

text \<open>
  C1. At a binary expression whose operator is one of the four relational operators,
  the callback of the binary pass pushes exactly three mutants and advances the counter
  by three; the three are classified \<open>BoundaryCondition\<close>, keep the operator as original,
  and their replacements are the three other relational operators, each once. The
  result of the pass is, apart from the identifiers, what the callback pushes at each
  descendant, in pre-order.
\<close>

theorem relational_operator_three_mutants:
  assumes "nodeText t \<in> set [''>'', ''<'', ''>='', ''<='']"
  shows "(\<exists>m1 m2 m3.
      binaryVisit sf file (BinaryExpression i l t r) (ms, k) = (ms @ [m1, m2, m3], k + 3)
      \<and> mutatorName m1 = ''BoundaryCondition'' \<and> mutatorName m2 = ''BoundaryCondition''
      \<and> mutatorName m3 = ''BoundaryCondition''
      \<and> original m1 = nodeText t \<and> original m2 = nodeText t \<and> original m3 = nodeText t
      \<and> distinct [replacement m1, replacement m2, replacement m3]
      \<and> set [replacement m1, replacement m2, replacement m3]
          = set [''>'', ''<'', ''>='', ''<=''] - {nodeText t})
    \<and> map eraseId (collectBinaryMutations sf file) =
        concat (map (\<lambda>n. map eraseId (fst (binaryVisit sf file n ([], 0)))) (descendants sf))"
proof -
  from assms have "nodeText t = ''>'' \<or> nodeText t = ''<'' \<or> nodeText t = ''>='' \<or> nodeText t = ''<=''"
    by simp
  then obtain r1 r2 r3 where
    tab: "map_of BINARY_OPERATOR_MUTATIONS (nodeText t) = Some [r1, r2, r3]"
    and d: "distinct [r1, r2, r3]"
    and s: "set [r1, r2, r3] = set [''>'', ''<'', ''>='', ''<=''] - {nodeText t}"
    using relational_entries by metis
  from binaryVisit_relational [OF tab assms, of sf "file" i l r ms k]
  obtain m1 m2 m3 where
    v: "binaryVisit sf file (BinaryExpression i l t r) (ms, k) = (ms @ [m1, m2, m3], k + 3)"
    and kind: "mutatorName m1 = ''BoundaryCondition''" "mutatorName m2 = ''BoundaryCondition''"
      "mutatorName m3 = ''BoundaryCondition''"
    and orig: "original m1 = nodeText t" "original m2 = nodeText t" "original m3 = nodeText t"
    and repl: "[replacement m1, replacement m2, replacement m3] = [r1, r2, r3]"
    by blast
  from repl d have "distinct [replacement m1, replacement m2, replacement m3]"
    by (simp only:)
  moreover from repl s have "set [replacement m1, replacement m2, replacement m3]
      = set [''>'', ''<'', ''>='', ''<=''] - {nodeText t}"
    by (simp only:)
  ultimately show ?thesis
    using v kind orig collectBinaryMutations_erased by blast
qed

theorem relational_operator_three_mutants_witness:
  "map replacement (collectBinaryMutations examplePositive ''p.ts'') = [''>='', ''<'', ''<='']
   \<and> map mutatorName (collectBinaryMutations examplePositive ''p.ts'')
       = [''BoundaryCondition'', ''BoundaryCondition'', ''BoundaryCondition'']
   \<and> length (fst (binaryVisit examplePositive ''p.ts'' positiveExpression ([], 0))) = 3
   \<and> snd (binaryVisit examplePositive ''p.ts'' positiveExpression ([], 0)) = 3"
proof -
  let ?t = "\<lparr> nodeText = ''>'', nodeStart = 2, nodeEnd = 3, startLineNumber = 1, endLineNumber = 1 \<rparr>"
  have h: "nodeText ?t \<in> set [''>'', ''<'', ''>='', ''<='']" by simp
  from relational_operator_three_mutants [OF h, of examplePositive "''p.ts''"
      "\<lparr> nodeText = ''n > 0'', nodeStart = 0, nodeEnd = 5, startLineNumber = 1, endLineNumber = 1 \<rparr>"
      "leaf ''n'' 0 1 1" "leaf ''0'' 4 5 1" "[]" 0]
  obtain m1 m2 m3 where
    "binaryVisit examplePositive ''p.ts'' positiveExpression ([], 0) = ([] @ [m1, m2, m3], 0 + 3)"
    unfolding positiveExpression_def by blast
  then have "length (fst (binaryVisit examplePositive ''p.ts'' positiveExpression ([], 0))) = 3
      \<and> snd (binaryVisit examplePositive ''p.ts'' positiveExpression ([], 0)) = 3"
    by simp
  moreover have "map replacement (collectBinaryMutations examplePositive ''p.ts'') = [''>='', ''<'', ''<='']"
    by code_simp
  moreover have "map mutatorName (collectBinaryMutations examplePositive ''p.ts'')
       = [''BoundaryCondition'', ''BoundaryCondition'', ''BoundaryCondition'']"
    by code_simp
  ultimately show ?thesis by blast
qed

section \<open>The conditional pass\<close>

lemma conditionalVisit_length:
  "length (fst (conditionalVisit sf file n ([], 0))) = (if isIfStatement n then 2 else 0)"
  by (cases n) (simp_all add: conditionalPush_def Let_def)

lemma sum_two_per_if:
  "sum_list (map (\<lambda>n. if isIfStatement n then 2 else 0) ns) = 2 * length (filter isIfStatement ns)"
  by (induction ns) simp_all

lemma collectConditionalMutations_length:
  "length (collectConditionalMutations sf file k) = 2 * length (filter isIfStatement (descendants sf))"
proof -
  have "length (collectConditionalMutations sf file k)
      = length (map eraseId (collectConditionalMutations sf file k))"
    by simp
  also have "\<dots> = length (concat (map (\<lambda>n. map eraseId (fst (conditionalVisit sf file n ([], 0))))
                                   (descendants sf)))"
    unfolding collectConditionalMutations_def
    by (rule arg_cong [where f = length], rule numbered_collector(3))
       (rule uniformStep_conditionalVisit)
  also have "\<dots> = sum_list (map (\<lambda>n. if isIfStatement n then 2 else 0) (descendants sf))"
    by (simp add: length_concat comp_def conditionalVisit_length)
  finally show ?thesis by (simp add: sum_two_per_if)
qed

lemma collectConditionalMutations_erased:
  "map eraseId (collectConditionalMutations sf fname k) =
     concat (map (\<lambda>n. map eraseId (fst (conditionalVisit sf fname n ([], 0)))) (descendants sf))"
  unfolding collectConditionalMutations_def
  by (rule numbered_collector(3)) (rule uniformStep_conditionalVisit)

lemma conditionalVisit_fields:
  "map (\<lambda>m. (mutatorName m, original m, replacement m, location m))
       (fst (conditionalVisit sf fname n ([], 0))) =
     (case n of
        IfStatement i c t e \<Rightarrow>
          [(''ConditionalRemoval'', nodeText (getInfo c), ''true (always if-branch)'',
            \<lparr> locStart = getLineAndColumnAtPos sf (nodeStart (getInfo c)),
              locEnd = getLineAndColumnAtPos sf (nodeEnd (getInfo c)) \<rparr>),
           (''ConditionalRemoval'', nodeText (getInfo c), ''false (always else-branch)'',
            \<lparr> locStart = getLineAndColumnAtPos sf (nodeStart (getInfo c)),
              locEnd = getLineAndColumnAtPos sf (nodeEnd (getInfo c)) \<rparr>)]
      | _ \<Rightarrow> [])"
  by (cases n) (simp_all add: conditionalPush_def Let_def)

lemma collectConditionalMutations_fields:
  "map (\<lambda>m. (mutatorName m, original m, replacement m, location m))
       (collectConditionalMutations sf fname k) =
     concat (map (\<lambda>n. case n of
        IfStatement i c t e \<Rightarrow>
          [(''ConditionalRemoval'', nodeText (getInfo c), ''true (always if-branch)'',
            \<lparr> locStart = getLineAndColumnAtPos sf (nodeStart (getInfo c)),
              locEnd = getLineAndColumnAtPos sf (nodeEnd (getInfo c)) \<rparr>),
           (''ConditionalRemoval'', nodeText (getInfo c), ''false (always else-branch)'',
            \<lparr> locStart = getLineAndColumnAtPos sf (nodeStart (getInfo c)),
              locEnd = getLineAndColumnAtPos sf (nodeEnd (getInfo c)) \<rparr>)]
      | _ \<Rightarrow> []) (descendants sf))"
proof -
  have "map (\<lambda>m. (mutatorName m, original m, replacement m, location m))
          (collectConditionalMutations sf fname k) =
        concat (map (\<lambda>n. map (\<lambda>m. (mutatorName m, original m, replacement m, location m))
                            (fst (conditionalVisit sf fname n ([], 0)))) (descendants sf))"
    by (rule projection_from_erased [OF collectConditionalMutations_erased])
       (simp add: eraseId_def)
  then show ?thesis
    by (simp only: conditionalVisit_fields)
qed

text \<open>
  C2. At an \<open>if\<close> statement the callback of the conditional pass pushes exactly two
  mutants, both \<open>ConditionalRemoval\<close>, both with the text of the condition as original;
  the first replacement forces the if-branch, the second the else-branch; the location
  of both runs from the start to the end of the condition. The pass as a whole is, apart
  from the identifiers, what the callback pushes at each descendant of the file, in
  pre-order: for every \<open>if\<close> statement among the descendants, nested ones included, it
  holds that pair for the condition of that very statement, and it holds nothing else.
\<close>

theorem if_statement_two_mutants:
  "(\<exists>m1 m2.
      conditionalVisit sf fname (IfStatement i c t e) (ms, k) = (ms @ [m1, m2], k + 2)
      \<and> mutatorName m1 = ''ConditionalRemoval'' \<and> mutatorName m2 = ''ConditionalRemoval''
      \<and> original m1 = nodeText (getInfo c) \<and> original m2 = nodeText (getInfo c)
      \<and> replacement m1 = ''true (always if-branch)''
      \<and> replacement m2 = ''false (always else-branch)''
      \<and> location m1 = \<lparr> locStart = getLineAndColumnAtPos sf (nodeStart (getInfo c)),
                         locEnd = getLineAndColumnAtPos sf (nodeEnd (getInfo c)) \<rparr>
      \<and> location m2 = location m1)
   \<and> length (collectConditionalMutations sf fname k)
       = 2 * length (filter isIfStatement (descendants sf))
   \<and> map eraseId (collectConditionalMutations sf fname k) =
       concat (map (\<lambda>n. map eraseId (fst (conditionalVisit sf fname n ([], 0)))) (descendants sf))
   \<and> map (\<lambda>m. (mutatorName m, original m, replacement m, location m))
         (collectConditionalMutations sf fname k) =
       concat (map (\<lambda>n. case n of
          IfStatement i' c' t' e' \<Rightarrow>
            [(''ConditionalRemoval'', nodeText (getInfo c'), ''true (always if-branch)'',
              \<lparr> locStart = getLineAndColumnAtPos sf (nodeStart (getInfo c')),
                locEnd = getLineAndColumnAtPos sf (nodeEnd (getInfo c')) \<rparr>),
             (''ConditionalRemoval'', nodeText (getInfo c'), ''false (always else-branch)'',
              \<lparr> locStart = getLineAndColumnAtPos sf (nodeStart (getInfo c')),
                locEnd = getLineAndColumnAtPos sf (nodeEnd (getInfo c')) \<rparr>)]
        | _ \<Rightarrow> []) (descendants sf))"
proof -
  have visit: "\<exists>m1 m2.
      conditionalVisit sf fname (IfStatement i c t e) (ms, k) = (ms @ [m1, m2], k + 2)
      \<and> mutatorName m1 = ''ConditionalRemoval'' \<and> mutatorName m2 = ''ConditionalRemoval''
      \<and> original m1 = nodeText (getInfo c) \<and> original m2 = nodeText (getInfo c)
      \<and> replacement m1 = ''true (always if-branch)''
      \<and> replacement m2 = ''false (always else-branch)''
      \<and> location m1 = \<lparr> locStart = getLineAndColumnAtPos sf (nodeStart (getInfo c)),
                         locEnd = getLineAndColumnAtPos sf (nodeEnd (getInfo c)) \<rparr>
      \<and> location m2 = location m1"
    by (simp add: conditionalPush_def Let_def)
  from visit collectConditionalMutations_length collectConditionalMutations_erased
    collectConditionalMutations_fields
  show ?thesis by (intro conjI)
qed

theorem if_statement_two_mutants_witness:
  "map (\<lambda>m. (mutatorName m, original m, replacement m, location m))
       (collectConditionalMutations exampleNested ''n.ts'' 0)
     = [(''ConditionalRemoval'', ''a'', ''true (always if-branch)'',
         \<lparr> locStart = \<lparr> line = 1, column = 5 \<rparr>, locEnd = \<lparr> line = 1, column = 6 \<rparr> \<rparr>),
        (''ConditionalRemoval'', ''a'', ''false (always else-branch)'',
         \<lparr> locStart = \<lparr> line = 1, column = 5 \<rparr>, locEnd = \<lparr> line = 1, column = 6 \<rparr> \<rparr>),
        (''ConditionalRemoval'', ''b'', ''true (always if-branch)'',
         \<lparr> locStart = \<lparr> line = 2, column = 7 \<rparr>, locEnd = \<lparr> line = 2, column = 8 \<rparr> \<rparr>),
        (''ConditionalRemoval'', ''b'', ''false (always else-branch)'',
         \<lparr> locStart = \<lparr> line = 2, column = 7 \<rparr>, locEnd = \<lparr> line = 2, column = 8 \<rparr> \<rparr>)]
   \<and> length (collectConditionalMutations exampleNested ''n.ts'' 0) = 4
   \<and> length (topLevel exampleNested) = 1
   \<and> map (\<lambda>m. (original m, replacement m, location m))
       (collectConditionalMutations exampleGuard ''src/g.ts'' 5)
     = [(''x < y'', ''true (always if-branch)'',
         \<lparr> locStart = \<lparr> line = 4, column = 5 \<rparr>, locEnd = \<lparr> line = 4, column = 10 \<rparr> \<rparr>),
        (''x < y'', ''false (always else-branch)'',
         \<lparr> locStart = \<lparr> line = 4, column = 5 \<rparr>, locEnd = \<lparr> line = 4, column = 10 \<rparr> \<rparr>)]"
proof -
  note inst = if_statement_two_mutants [where sf = exampleNested and fname = "''n.ts''" and k = 0]
  have fields: "map (\<lambda>m. (mutatorName m, original m, replacement m, location m))
         (collectConditionalMutations exampleNested ''n.ts'' 0) =
       concat (map (\<lambda>n. case n of
          IfStatement i' c' t' e' \<Rightarrow>
            [(''ConditionalRemoval'', nodeText (getInfo c'), ''true (always if-branch)'',
              \<lparr> locStart = getLineAndColumnAtPos exampleNested (nodeStart (getInfo c')),
                locEnd = getLineAndColumnAtPos exampleNested (nodeEnd (getInfo c')) \<rparr>),
             (''ConditionalRemoval'', nodeText (getInfo c'), ''false (always else-branch)'',
              \<lparr> locStart = getLineAndColumnAtPos exampleNested (nodeStart (getInfo c')),
                locEnd = getLineAndColumnAtPos exampleNested (nodeEnd (getInfo c')) \<rparr>)]
        | _ \<Rightarrow> []) (descendants exampleNested))"
    by (rule inst [THEN conjunct2, THEN conjunct2, THEN conjunct2])
  have count: "length (collectConditionalMutations exampleNested ''n.ts'' 0)
       = 2 * length (filter isIfStatement (descendants exampleNested))"
    by (rule inst [THEN conjunct2, THEN conjunct1])
  have rhs: "concat (map (\<lambda>n. case n of
          IfStatement i' c' t' e' \<Rightarrow>
            [(''ConditionalRemoval'', nodeText (getInfo c'), ''true (always if-branch)'',
              \<lparr> locStart = getLineAndColumnAtPos exampleNested (nodeStart (getInfo c')),
                locEnd = getLineAndColumnAtPos exampleNested (nodeEnd (getInfo c')) \<rparr>),
             (''ConditionalRemoval'', nodeText (getInfo c'), ''false (always else-branch)'',
              \<lparr> locStart = getLineAndColumnAtPos exampleNested (nodeStart (getInfo c')),
                locEnd = getLineAndColumnAtPos exampleNested (nodeEnd (getInfo c')) \<rparr>)]
        | _ \<Rightarrow> []) (descendants exampleNested))
     = [(''ConditionalRemoval'', ''a'', ''true (always if-branch)'',
         \<lparr> locStart = \<lparr> line = 1, column = 5 \<rparr>, locEnd = \<lparr> line = 1, column = 6 \<rparr> \<rparr>),
        (''ConditionalRemoval'', ''a'', ''false (always else-branch)'',
         \<lparr> locStart = \<lparr> line = 1, column = 5 \<rparr>, locEnd = \<lparr> line = 1, column = 6 \<rparr> \<rparr>),
        (''ConditionalRemoval'', ''b'', ''true (always if-branch)'',
         \<lparr> locStart = \<lparr> line = 2, column = 7 \<rparr>, locEnd = \<lparr> line = 2, column = 8 \<rparr> \<rparr>),
        (''ConditionalRemoval'', ''b'', ''false (always else-branch)'',
         \<lparr> locStart = \<lparr> line = 2, column = 7 \<rparr>, locEnd = \<lparr> line = 2, column = 8 \<rparr> \<rparr>)]"
    by code_simp
  have ifs: "length (filter isIfStatement (descendants exampleNested)) = 2"
    by code_simp
  have top: "length (topLevel exampleNested) = 1"
    by code_simp
  have guard: "map (\<lambda>m. (original m, replacement m, location m))
       (collectConditionalMutations exampleGuard ''src/g.ts'' 5)
     = [(''x < y'', ''true (always if-branch)'',
         \<lparr> locStart = \<lparr> line = 4, column = 5 \<rparr>, locEnd = \<lparr> line = 4, column = 10 \<rparr> \<rparr>),
        (''x < y'', ''false (always else-branch)'',
         \<lparr> locStart = \<lparr> line = 4, column = 5 \<rparr>, locEnd = \<lparr> line = 4, column = 10 \<rparr> \<rparr>)]"
    by code_simp
  from fields rhs count ifs top guard show ?thesis
    by simp
qed

section \<open>Identifiers within one file\<close>

lemma collectors_numbered:
  "numberedFrom file 0 (collectBinaryMutations sf file)"
  "numberedFrom file s (collectUnaryMutations sf file s)"
  "numberedFrom file s (collectBooleanMutations sf file s)"
  "numberedFrom file s (collectConditionalMutations sf file s)"
  unfolding collectBinaryMutations_def collectUnaryMutations_def collectBooleanMutations_def
    collectConditionalMutations_def
  by (rule numbered_collector(1), rule uniformStep_binaryVisit uniformStep_unaryVisit
        uniformStep_booleanVisit uniformStep_conditionalVisit)+

lemma collectors_fileName:
  "list_all (\<lambda>m. fileName m = file) (collectBinaryMutations sf file)"
  "list_all (\<lambda>m. fileName m = file) (collectUnaryMutations sf file s)"
  "list_all (\<lambda>m. fileName m = file) (collectBooleanMutations sf file s)"
  "list_all (\<lambda>m. fileName m = file) (collectConditionalMutations sf file s)"
  unfolding collectBinaryMutations_def collectUnaryMutations_def collectBooleanMutations_def
    collectConditionalMutations_def
  by (rule numbered_collector(2), rule uniformStep_binaryVisit uniformStep_unaryVisit
        uniformStep_booleanVisit uniformStep_conditionalVisit)+

lemma collectors_erased:
  "map eraseId (collectUnaryMutations sf file s) =
     concat (map (\<lambda>n. map eraseId (fst (unaryVisit sf file n ([], 0)))) (descendants sf))"
  "map eraseId (collectBooleanMutations sf file s) =
     concat (map (\<lambda>n. map eraseId (fst (booleanVisit sf file n ([], 0)))) (descendants sf))"
  "map eraseId (collectConditionalMutations sf file s) =
     concat (map (\<lambda>n. map eraseId (fst (conditionalVisit sf file n ([], 0)))) (descendants sf))"
  unfolding collectUnaryMutations_def collectBooleanMutations_def collectConditionalMutations_def
  by (rule numbered_collector(3), rule uniformStep_unaryVisit
        uniformStep_booleanVisit uniformStep_conditionalVisit)+

lemma fileMutants_parts:
  "fileMutants sf file =
     (let B = collectBinaryMutations sf file;
          U = collectUnaryMutations sf file (length B);
          L = collectBooleanMutations sf file (length B + length U);
          C = collectConditionalMutations sf file (length B + length U + length L)
      in B @ U @ L @ C)"
  by (simp add: fileMutants_def Let_def)

lemma fileMutants_numbered: "numberedFrom file 0 (fileMutants sf file)"
proof -
  let ?B = "collectBinaryMutations sf file"
  let ?U = "collectUnaryMutations sf file (length ?B)"
  let ?L = "collectBooleanMutations sf file (length ?B + length ?U)"
  let ?C = "collectConditionalMutations sf file (length ?B + length ?U + length ?L)"
  have b: "numberedFrom file 0 ?B" by (rule collectors_numbered)
  have u: "numberedFrom file (0 + length ?B) ?U" by (simp add: collectors_numbered)
  have bu: "numberedFrom file 0 (?B @ ?U)" using b u by (rule numberedFrom_append)
  have l: "numberedFrom file (0 + length (?B @ ?U)) ?L" by (simp add: collectors_numbered)
  have bul: "numberedFrom file 0 ((?B @ ?U) @ ?L)" using bu l by (rule numberedFrom_append)
  have c: "numberedFrom file (0 + length ((?B @ ?U) @ ?L)) ?C"
    by (simp add: collectors_numbered add.assoc)
  have "numberedFrom file 0 (((?B @ ?U) @ ?L) @ ?C)" using bul c by (rule numberedFrom_append)
  then show ?thesis by (simp add: fileMutants_def Let_def)
qed

lemma fileMutants_fileName: "list_all (\<lambda>m. fileName m = file) (fileMutants sf file)"
  by (simp add: fileMutants_def Let_def collectors_fileName)

text \<open>
  C5. The mutants of one file are those of the binary, the unary, the boolean-literal and
  the conditional pass, in that order; each pass starts its counter at the number of
  mutants of the passes before it and numbers its mutants from there; so the identifiers
  of the file are those of the counter values 1, 2, ... in production order, and no two
  are equal. Within a pass the mutants are, apart from the identifiers, what the
  callback pushes at each descendant, in pre-order.
\<close>

theorem per_file_identifiers_in_production_order:
  "(let B = collectBinaryMutations sf file;
        U = collectUnaryMutations sf file (length B);
        L = collectBooleanMutations sf file (length B + length U);
        C = collectConditionalMutations sf file (length B + length U + length L)
    in fileMutants sf file = B @ U @ L @ C
       \<and> numberedFrom file 0 B
       \<and> numberedFrom file (length B) U
       \<and> numberedFrom file (length B + length U) L
       \<and> numberedFrom file (length B + length U + length L) C)
   \<and> map mutantId (fileMutants sf file)
       = map (makeId file) [1 ..< Suc (length (fileMutants sf file))]
   \<and> distinct (map mutantId (fileMutants sf file))
   \<and> map eraseId (collectBinaryMutations sf file) =
       concat (map (\<lambda>n. map eraseId (fst (binaryVisit sf file n ([], 0)))) (descendants sf))
   \<and> map eraseId (collectUnaryMutations sf file s) =
       concat (map (\<lambda>n. map eraseId (fst (unaryVisit sf file n ([], 0)))) (descendants sf))
   \<and> map eraseId (collectBooleanMutations sf file s) =
       concat (map (\<lambda>n. map eraseId (fst (booleanVisit sf file n ([], 0)))) (descendants sf))
   \<and> map eraseId (collectConditionalMutations sf file s) =
       concat (map (\<lambda>n. map eraseId (fst (conditionalVisit sf file n ([], 0)))) (descendants sf))"
proof -
  have parts: "(let B = collectBinaryMutations sf file;
        U = collectUnaryMutations sf file (length B);
        L = collectBooleanMutations sf file (length B + length U);
        C = collectConditionalMutations sf file (length B + length U + length L)
    in fileMutants sf file = B @ U @ L @ C
       \<and> numberedFrom file 0 B
       \<and> numberedFrom file (length B) U
       \<and> numberedFrom file (length B + length U) L
       \<and> numberedFrom file (length B + length U + length L) C)"
    by (simp add: Let_def fileMutants_def collectors_numbered)
  have ids: "map mutantId (fileMutants sf file)
       = map (makeId file) [1 ..< Suc (length (fileMutants sf file))]"
    using fileMutants_numbered [of "file" sf] by (simp only: numberedFrom_def add_0 One_nat_def)
  have dist: "distinct (map mutantId (fileMutants sf file))"
    using fileMutants_numbered by (rule numberedFrom_distinct)
  have b: "map eraseId (collectBinaryMutations sf file) =
       concat (map (\<lambda>n. map eraseId (fst (binaryVisit sf file n ([], 0)))) (descendants sf))"
    unfolding collectBinaryMutations_def
    by (rule numbered_collector(3)) (rule uniformStep_binaryVisit)
  from parts ids dist b collectors_erased show ?thesis
    by (intro conjI)
qed

theorem per_file_identifiers_in_production_order_witness:
  "map mutantId (fileMutants exampleGuard ''src/g.ts'')
     = [''g.ts-1'', ''g.ts-2'', ''g.ts-3'', ''g.ts-4'', ''g.ts-5'', ''g.ts-6'', ''g.ts-7'']
   \<and> map mutatorName (fileMutants exampleGuard ''src/g.ts'')
     = [''BoundaryCondition'', ''BoundaryCondition'', ''BoundaryCondition'', ''UnaryOperator'',
        ''BooleanLiteral'', ''ConditionalRemoval'', ''ConditionalRemoval'']
   \<and> distinct (map mutantId (fileMutants exampleGuard ''src/g.ts''))"
proof -
  have "map mutantId (fileMutants exampleGuard ''src/g.ts'')
     = [''g.ts-1'', ''g.ts-2'', ''g.ts-3'', ''g.ts-4'', ''g.ts-5'', ''g.ts-6'', ''g.ts-7'']"
    by code_simp
  moreover have "map mutatorName (fileMutants exampleGuard ''src/g.ts'')
     = [''BoundaryCondition'', ''BoundaryCondition'', ''BoundaryCondition'', ''UnaryOperator'',
        ''BooleanLiteral'', ''ConditionalRemoval'', ''ConditionalRemoval'']"
    by code_simp
  moreover have "distinct (map mutantId (fileMutants exampleGuard ''src/g.ts''))"
    using per_file_identifiers_in_production_order [of exampleGuard "''src/g.ts''"] by blast
  ultimately show ?thesis by blast
qed

section \<open>Identifiers across files\<close>

lemma same_basename_run:
  "case generateMutants sameBasenameEnv (explicitFiles [''src/x.ts'', ''lib/x.ts'']) of
     Inl e \<Rightarrow> False
   | Inr ms \<Rightarrow> length ms = 6 \<and> ms ! 0 \<noteq> ms ! 3 \<and> fileName (ms ! 0) = ''src/x.ts''
       \<and> fileName (ms ! 3) = ''lib/x.ts'' \<and> mutantId (ms ! 0) = ''x.ts-1''
       \<and> mutantId (ms ! 3) = ''x.ts-1''"
  by code_simp

text \<open>
  C9. The \<open>i\<close>-th mutant of a file (counting from 0) carries the file name and has as
  identifier the base name of its file name, a hyphen and the decimal numeral of
  \<open>i + 1\<close>; each collector numbers its own mutants in this form from its start value on.
  The identifier therefore does not tell apart two files of the same base name: for the
  files \<^verbatim>\<open>src/x.ts\<close> and \<^verbatim>\<open>lib/x.ts\<close> the aggregated result holds two different mutants,
  of different files, with the same identifier.
\<close>

theorem identifier_is_basename_and_counter:
  "(\<forall>i < length (fileMutants sf file).
      fileName (fileMutants sf file ! i) = file
      \<and> mutantId (fileMutants sf file ! i)
          = basename (fileName (fileMutants sf file ! i)) @ ''-'' @ decimal (Suc i))
   \<and> numberedFrom file 0 (collectBinaryMutations sf file)
   \<and> numberedFrom file s (collectUnaryMutations sf file s)
   \<and> numberedFrom file s (collectBooleanMutations sf file s)
   \<and> numberedFrom file s (collectConditionalMutations sf file s)
   \<and> (\<exists>ms. generateMutants sameBasenameEnv (explicitFiles [''src/x.ts'', ''lib/x.ts'']) = Inr ms
         \<and> ms ! 0 \<noteq> ms ! 3 \<and> fileName (ms ! 0) \<noteq> fileName (ms ! 3)
         \<and> mutantId (ms ! 0) = mutantId (ms ! 3))"
proof -
  have per_file: "\<forall>i < length (fileMutants sf file).
      fileName (fileMutants sf file ! i) = file
      \<and> mutantId (fileMutants sf file ! i)
          = basename (fileName (fileMutants sf file ! i)) @ ''-'' @ decimal (Suc i)"
  proof (intro allI impI)
    fix i
    assume i: "i < length (fileMutants sf file)"
    have f: "fileName (fileMutants sf file ! i) = file"
      using fileMutants_fileName [of "file" sf] i by (simp add: list_all_length)
    have "mutantId (fileMutants sf file ! i) = makeId file (Suc (0 + i))"
      using fileMutants_numbered i by (rule numberedFrom_nth)
    with f show "fileName (fileMutants sf file ! i) = file
      \<and> mutantId (fileMutants sf file ! i)
          = basename (fileName (fileMutants sf file ! i)) @ ''-'' @ decimal (Suc i)"
      by (simp add: makeId_def)
  qed
  have across: "\<exists>ms. generateMutants sameBasenameEnv (explicitFiles [''src/x.ts'', ''lib/x.ts'']) = Inr ms
         \<and> ms ! 0 \<noteq> ms ! 3 \<and> fileName (ms ! 0) \<noteq> fileName (ms ! 3)
         \<and> mutantId (ms ! 0) = mutantId (ms ! 3)"
  proof (cases "generateMutants sameBasenameEnv (explicitFiles [''src/x.ts'', ''lib/x.ts''])")
    case (Inl e)
    with same_basename_run show ?thesis by simp
  next
    case (Inr ms)
    with same_basename_run have "ms ! 0 \<noteq> ms ! 3 \<and> fileName (ms ! 0) = ''src/x.ts''
       \<and> fileName (ms ! 3) = ''lib/x.ts'' \<and> mutantId (ms ! 0) = ''x.ts-1''
       \<and> mutantId (ms ! 3) = ''x.ts-1''"
      by simp
    then have "ms ! 0 \<noteq> ms ! 3 \<and> fileName (ms ! 0) \<noteq> fileName (ms ! 3)
         \<and> mutantId (ms ! 0) = mutantId (ms ! 3)"
      by simp
    with Inr show ?thesis by blast
  qed
  from per_file across collectors_numbered show ?thesis
    by (intro conjI)
qed

theorem identifier_is_basename_and_counter_witness:
  "(6::nat) < length (fileMutants exampleGuard ''src/g.ts'')
   \<and> fileName (fileMutants exampleGuard ''src/g.ts'' ! 6) = ''src/g.ts''
   \<and> mutantId (fileMutants exampleGuard ''src/g.ts'' ! 6) = ''g.ts-7''"
proof -
  have l: "(6::nat) < length (fileMutants exampleGuard ''src/g.ts'')"
    by code_simp
  have d: "basename ''src/g.ts'' @ ''-'' @ decimal (Suc 6) = ''g.ts-7''"
    by code_simp
  from identifier_is_basename_and_counter [of exampleGuard "''src/g.ts''"] l
  have "fileName (fileMutants exampleGuard ''src/g.ts'' ! 6) = ''src/g.ts''
      \<and> mutantId (fileMutants exampleGuard ''src/g.ts'' ! 6)
          = basename (fileName (fileMutants exampleGuard ''src/g.ts'' ! 6)) @ ''-'' @ decimal (Suc 6)"
    by blast
  with l d show ?thesis by simp
qed

section \<open>The aggregator and a failing tree construction\<close>

lemma processFiles_outcome:
  "processFiles env fs acc =
     (case List.find isl (map (\<lambda>f. addSourceFileAtPath env (resolve env f)) fs) of
        Some r \<Rightarrow> Inl (projl r)
      | None \<Rightarrow>
          Inr (acc @ concat (map (\<lambda>f. fileMutants (projr (addSourceFileAtPath env (resolve env f)))
                                        (relativeToCwd env (resolve env f))) fs)))"
proof (induction fs arbitrary: acc)
  case Nil
  then show ?case by simp
next
  case (Cons f fs)
  show ?case
  proof (cases "addSourceFileAtPath env (resolve env f)")
    case (Inl e)
    then show ?thesis by (simp add: Let_def)
  next
    case (Inr sf)
    then show ?thesis by (simp add: Let_def Cons.IH split: option.splits)
  qed
qed

text \<open>
  C8, as the code has it. The call fails with what the first failing tree construction
  throws, and then returns no mutants at all, neither of the files before nor of the
  files after it; when every tree construction succeeds the result is the mutants of
  the candidate files in order. Only the files of an explicit list that do not exist
  are left out without an error.
\<close>

theorem generateMutants_outcome:
  "generateMutants env options =
     (case List.find isl (map (\<lambda>f. addSourceFileAtPath env (resolve env f)) (filePathsOf env options)) of
        Some r \<Rightarrow> Inl (projl r)
      | None \<Rightarrow>
          Inr (concat (map (\<lambda>f. fileMutants (projr (addSourceFileAtPath env (resolve env f)))
                                  (relativeToCwd env (resolve env f)))
                        (filePathsOf env options))))
   \<and> (files options = Some fs \<and> fs \<noteq> [] \<longrightarrow> filePathsOf env options = filter (existsSync env) fs)"
proof -
  have "generateMutants env options = processFiles env (filePathsOf env options) []"
    by (cases "filePathsOf env options") (simp_all add: generateMutants_def Let_def)
  then have run: "generateMutants env options =
     (case List.find isl (map (\<lambda>f. addSourceFileAtPath env (resolve env f)) (filePathsOf env options)) of
        Some r \<Rightarrow> Inl (projl r)
      | None \<Rightarrow>
          Inr (concat (map (\<lambda>f. fileMutants (projr (addSourceFileAtPath env (resolve env f)))
                                  (relativeToCwd env (resolve env f)))
                        (filePathsOf env options))))"
    by (simp add: processFiles_outcome split: option.splits)
  have "files options = Some fs \<and> fs \<noteq> [] \<longrightarrow> filePathsOf env options = filter (existsSync env) fs"
    by (simp add: filePathsOf_def)
  with run show ?thesis by (rule conjI)
qed

theorem generateMutants_outcome_witness:
  "filePathsOf rejectingEnv (explicitFiles [''good.ts'', ''bad.ts'', ''also.ts'', ''missing.ts''])
     = [''good.ts'', ''bad.ts'', ''also.ts'']
   \<and> generateMutants rejectingEnv (explicitFiles [''good.ts'', ''bad.ts'', ''also.ts'', ''missing.ts''])
     = Inl (Thrown ''no tree'')
   \<and> filePathsOf rejectingEnv (explicitFiles [''good.ts'', ''also.ts'', ''missing.ts''])
     = [''good.ts'', ''also.ts'']
   \<and> generateMutants rejectingEnv (explicitFiles [''good.ts'', ''also.ts'', ''missing.ts''])
     = Inr (fileMutants examplePositive ''good.ts'' @ fileMutants exampleGuard ''also.ts'')"
proof -
  let ?o1 = "explicitFiles [''good.ts'', ''bad.ts'', ''also.ts'', ''missing.ts'']"
  let ?o2 = "explicitFiles [''good.ts'', ''also.ts'', ''missing.ts'']"
  have f1: "files ?o1 = Some [''good.ts'', ''bad.ts'', ''also.ts'', ''missing.ts'']
      \<and> [''good.ts'', ''bad.ts'', ''also.ts'', ''missing.ts''] \<noteq> []"
    by (simp add: explicitFiles_def)
  have f2: "files ?o2 = Some [''good.ts'', ''also.ts'', ''missing.ts'']
      \<and> [''good.ts'', ''also.ts'', ''missing.ts''] \<noteq> []"
    by (simp add: explicitFiles_def)
  have e1: "filter (existsSync rejectingEnv) [''good.ts'', ''bad.ts'', ''also.ts'', ''missing.ts'']
      = [''good.ts'', ''bad.ts'', ''also.ts'']"
    by code_simp
  have e2: "filter (existsSync rejectingEnv) [''good.ts'', ''also.ts'', ''missing.ts'']
      = [''good.ts'', ''also.ts'']"
    by code_simp
  from generateMutants_outcome [of rejectingEnv ?o1] f1 e1
  have p1: "filePathsOf rejectingEnv ?o1 = [''good.ts'', ''bad.ts'', ''also.ts'']"
    by simp
  from generateMutants_outcome [of rejectingEnv ?o2] f2 e2
  have p2: "filePathsOf rejectingEnv ?o2 = [''good.ts'', ''also.ts'']"
    by simp
  have a: "addSourceFileAtPath rejectingEnv (resolve rejectingEnv ''good.ts'') = Inr examplePositive"
    "addSourceFileAtPath rejectingEnv (resolve rejectingEnv ''bad.ts'') = Inl (Thrown ''no tree'')"
    "addSourceFileAtPath rejectingEnv (resolve rejectingEnv ''also.ts'') = Inr exampleGuard"
    "relativeToCwd rejectingEnv (resolve rejectingEnv ''good.ts'') = ''good.ts''"
    "relativeToCwd rejectingEnv (resolve rejectingEnv ''also.ts'') = ''also.ts''"
    by (simp_all add: rejectingEnv_def exampleEnv_def)
  have g1: "generateMutants rejectingEnv ?o1 = Inl (Thrown ''no tree'')"
    using generateMutants_outcome [of rejectingEnv ?o1] by (simp add: p1 a)
  have g2: "generateMutants rejectingEnv ?o2
      = Inr (fileMutants examplePositive ''good.ts'' @ fileMutants exampleGuard ''also.ts'')"
    using generateMutants_outcome [of rejectingEnv ?o2] by (simp add: p2 a)
  from p1 g1 p2 g2 show ?thesis by blast
qed

text \<open>
  The claim as stated fails: \<^verbatim>\<open>bad.ts\<close> exists and its tree construction throws; the
  call returns that error, although without \<^verbatim>\<open>bad.ts\<close> the same call returns the ten
  mutants of the two other files.
\<close>

theorem unparseable_file_counterexample:
  "existsSync rejectingEnv ''bad.ts''
   \<and> isl (addSourceFileAtPath rejectingEnv (resolve rejectingEnv ''bad.ts''))
   \<and> generateMutants rejectingEnv (explicitFiles [''good.ts'', ''bad.ts'', ''also.ts''])
       = Inl (Thrown ''no tree'')
   \<and> map_sum id length (generateMutants rejectingEnv (explicitFiles [''good.ts'', ''also.ts'']))
       = Inr 10"
  by code_simp

section \<open>The context window\<close>

lemma splitLines_nonempty: "splitLines s \<noteq> []"
  by (induction s) (auto split: list.splits)

lemma splitLines_no_newline: "l \<in> set (splitLines s) \<Longrightarrow> CHR 0x0A \<notin> set l"
proof (induction s arbitrary: l)
  case Nil
  then show ?case by simp
next
  case (Cons c s)
  show ?case
  proof (cases "c = CHR 0x0A")
    case True
    with Cons show ?thesis by auto
  next
    case False
    obtain l0 ls where sp: "splitLines s = l0 # ls"
      using splitLines_nonempty [of s] by (cases "splitLines s") auto
    with False Cons.prems have "l = c # l0 \<or> l \<in> set ls" by auto
    then show ?thesis
    proof
      assume "l = c # l0"
      moreover have "CHR 0x0A \<notin> set l0" using Cons.IH [of l0] sp by simp
      ultimately show ?thesis using False by auto
    next
      assume "l \<in> set ls"
      then show ?thesis using Cons.IH [of l] sp by simp
    qed
  qed
qed

lemma splitLines_line:
  "CHR 0x0A \<notin> set l \<Longrightarrow> splitLines (l @ CHR 0x0A # rest) = l # splitLines rest"
  by (induction l) auto

lemma splitLines_single: "CHR 0x0A \<notin> set l \<Longrightarrow> splitLines l = [l]"
  by (induction l) auto

lemma splitLines_joinLines:
  "ls \<noteq> [] \<Longrightarrow> (\<And>l. l \<in> set ls \<Longrightarrow> CHR 0x0A \<notin> set l) \<Longrightarrow> splitLines (joinLines ls) = ls"
proof (induction ls rule: joinLines.induct)
  case 1
  then show ?case by simp
next
  case (2 l)
  then show ?case by (simp add: splitLines_single)
next
  case (3 l v va)
  then show ?case by (simp add: splitLines_line)
qed

lemma slice_inside:
  assumes "0 \<le> a" and "a \<le> b" and "b \<le> int (length xs)"
  shows "slice xs a b = take (nat (b - a)) (drop (nat a) xs)"
    and "length (slice xs a b) = nat (b - a)"
proof -
  from assms have k: "min a (int (length xs)) = a" and f: "min b (int (length xs)) = b"
    and neg: "\<not> a < 0" "\<not> b < 0"
    by simp_all
  show "slice xs a b = take (nat (b - a)) (drop (nat a) xs)"
    by (simp add: slice_def Let_def k f neg)
  from assms have "nat (b - a) \<le> length xs - nat a"
    by linarith
  then show "length (slice xs a b) = nat (b - a)"
    by (simp add: slice_def Let_def k f neg)
qed

lemma getContext_lines:
  assumes "0 \<le> p" and "1 \<le> startLineNumber (getInfo n)"
    and "startLineNumber (getInfo n) \<le> endLineNumber (getInfo n)"
    and "endLineNumber (getInfo n) \<le> sourceEndLineNumber sf"
    and "sourceEndLineNumber sf \<le> int (length (splitLines (fullText sf)))"
  shows "splitLines (getContext sf n p) =
           take (nat (min p (startLineNumber (getInfo n) - 1)
                      + (endLineNumber (getInfo n) - startLineNumber (getInfo n) + 1)
                      + min p (sourceEndLineNumber sf - endLineNumber (getInfo n))))
             (drop (nat (startLineNumber (getInfo n) - 1 - min p (startLineNumber (getInfo n) - 1)))
                (splitLines (fullText sf)))"
    and "length (splitLines (getContext sf n p)) =
           nat (min p (startLineNumber (getInfo n) - 1)
                + (endLineNumber (getInfo n) - startLineNumber (getInfo n) + 1)
                + min p (sourceEndLineNumber sf - endLineNumber (getInfo n)))"
proof -
  let ?s = "startLineNumber (getInfo n)"
  let ?e = "endLineNumber (getInfo n)"
  let ?E = "sourceEndLineNumber sf"
  let ?above = "min p (?s - 1)"
  let ?below = "min p (?E - ?e)"
  let ?all = "splitLines (fullText sf)"
  let ?w = "slice ?all (?s - 1 - ?above) (?e + ?below)"
  have lo: "max 1 (?s - p) - 1 = ?s - 1 - ?above"
    by (simp add: max_def min_def)
  have hi: "min ?E (?e + p) = ?e + ?below"
    by (simp add: min_def)
  have ctx: "getContext sf n p = joinLines ?w"
    by (simp only: getContext_def Let_def lo hi)
  from assms have a: "0 \<le> ?s - 1 - ?above" and b: "?s - 1 - ?above \<le> ?e + ?below"
    and c: "?e + ?below \<le> int (length ?all)"
    by (simp_all add: min_def)
  have d: "?e + ?below - (?s - 1 - ?above) = ?above + (?e - ?s + 1) + ?below"
    by simp
  have w: "?w = take (nat (?above + (?e - ?s + 1) + ?below)) (drop (nat (?s - 1 - ?above)) ?all)"
    and lw: "length ?w = nat (?above + (?e - ?s + 1) + ?below)"
    using slice_inside [OF a b c] by (simp_all only: d)
  from assms have "1 \<le> ?above + (?e - ?s + 1) + ?below"
    by (simp add: min_def)
  with lw have ne: "?w \<noteq> []"
    by auto
  have nl: "\<And>l. l \<in> set ?w \<Longrightarrow> CHR 0x0A \<notin> set l"
  proof -
    fix l
    assume "l \<in> set ?w"
    with w have "l \<in> set ?all"
      by (metis in_set_takeD in_set_dropD)
    then show "CHR 0x0A \<notin> set l" by (rule splitLines_no_newline)
  qed
  have rt: "splitLines (joinLines ?w) = ?w"
    using ne nl by (rule splitLines_joinLines)
  show "splitLines (getContext sf n p) =
           take (nat (?above + (?e - ?s + 1) + ?below)) (drop (nat (?s - 1 - ?above)) ?all)"
    using ctx rt w by simp
  show "length (splitLines (getContext sf n p)) = nat (?above + (?e - ?s + 1) + ?below)"
    using ctx rt lw by simp
qed

text \<open>The context of what the callbacks push at one node.\<close>

lemma foldl_binaryPush_context:
  "map mutantContext (fst st) = replicate (length (fst st)) (getContext sf n 2) \<Longrightarrow>
   map mutantContext (fst (foldl (binaryPush sf fname n t) st rs))
     = replicate (length (fst (foldl (binaryPush sf fname n t) st rs))) (getContext sf n 2)"
  by (induction rs arbitrary: st)
     (simp_all add: binaryPush_def Let_def replicate_append_same)

lemma foldl_unaryPush_context:
  "map mutantContext (fst st) = replicate (length (fst st)) (getContext sf n 2) \<Longrightarrow>
   map mutantContext (fst (foldl (unaryPush sf fname n orig) st rs))
     = replicate (length (fst (foldl (unaryPush sf fname n orig) st rs))) (getContext sf n 2)"
  by (induction rs arbitrary: st)
     (simp_all add: unaryPush_def Let_def replicate_append_same)

lemma binaryVisit_context:
  "map mutantContext (fst (binaryVisit sf fname n ([], 0)))
     = replicate (length (fst (binaryVisit sf fname n ([], 0)))) (getContext sf n 2)"
  by (cases n) (simp_all add: foldl_binaryPush_context split: option.splits)

lemma unaryVisit_context:
  "map mutantContext (fst (unaryVisit sf fname n ([], 0)))
     = replicate (length (fst (unaryVisit sf fname n ([], 0)))) (getContext sf n 2)"
  by (cases n) (simp_all add: foldl_unaryPush_context split: option.splits prod.splits)

lemma booleanVisit_context:
  "map mutantContext (fst (booleanVisit sf fname n ([], 0)))
     = replicate (length (fst (booleanVisit sf fname n ([], 0)))) (getContext sf n 2)"
  by (cases n) (simp_all add: booleanPush_def Let_def)

lemma conditionalVisit_context:
  "map mutantContext (fst (conditionalVisit sf fname n ([], 0)))
     = (if isIfStatement n then [getContext sf n 3, getContext sf n 3] else [])"
  by (cases n) (simp_all add: conditionalPush_def Let_def)

lemma pass_contexts:
  "map mutantContext (collectBinaryMutations sf fname) =
     concat (map (\<lambda>n. replicate (length (fst (binaryVisit sf fname n ([], 0)))) (getContext sf n 2))
               (descendants sf))"
  "map mutantContext (collectUnaryMutations sf fname a) =
     concat (map (\<lambda>n. replicate (length (fst (unaryVisit sf fname n ([], 0)))) (getContext sf n 2))
               (descendants sf))"
  "map mutantContext (collectBooleanMutations sf fname b) =
     concat (map (\<lambda>n. replicate (length (fst (booleanVisit sf fname n ([], 0)))) (getContext sf n 2))
               (descendants sf))"
  "map mutantContext (collectConditionalMutations sf fname c) =
     concat (map (\<lambda>n. if isIfStatement n then [getContext sf n 3, getContext sf n 3] else [])
               (descendants sf))"
proof -
  have e: "\<And>m. mutantContext (eraseId m) = mutantContext m"
    by (simp add: eraseId_def)
  have "map mutantContext (collectBinaryMutations sf fname) =
      concat (map (\<lambda>n. map mutantContext (fst (binaryVisit sf fname n ([], 0)))) (descendants sf))"
    by (rule projection_from_erased [OF collectBinaryMutations_erased]) (rule e)
  then show "map mutantContext (collectBinaryMutations sf fname) =
     concat (map (\<lambda>n. replicate (length (fst (binaryVisit sf fname n ([], 0)))) (getContext sf n 2))
               (descendants sf))"
    by (simp only: binaryVisit_context)
  have "map mutantContext (collectUnaryMutations sf fname a) =
      concat (map (\<lambda>n. map mutantContext (fst (unaryVisit sf fname n ([], 0)))) (descendants sf))"
    by (rule projection_from_erased [OF collectors_erased(1)]) (rule e)
  then show "map mutantContext (collectUnaryMutations sf fname a) =
     concat (map (\<lambda>n. replicate (length (fst (unaryVisit sf fname n ([], 0)))) (getContext sf n 2))
               (descendants sf))"
    by (simp only: unaryVisit_context)
  have "map mutantContext (collectBooleanMutations sf fname b) =
      concat (map (\<lambda>n. map mutantContext (fst (booleanVisit sf fname n ([], 0)))) (descendants sf))"
    by (rule projection_from_erased [OF collectors_erased(2)]) (rule e)
  then show "map mutantContext (collectBooleanMutations sf fname b) =
     concat (map (\<lambda>n. replicate (length (fst (booleanVisit sf fname n ([], 0)))) (getContext sf n 2))
               (descendants sf))"
    by (simp only: booleanVisit_context)
  have "map mutantContext (collectConditionalMutations sf fname c) =
      concat (map (\<lambda>n. map mutantContext (fst (conditionalVisit sf fname n ([], 0)))) (descendants sf))"
    by (rule projection_from_erased [OF collectors_erased(3)]) (rule e)
  then show "map mutantContext (collectConditionalMutations sf fname c) =
     concat (map (\<lambda>n. if isIfStatement n then [getContext sf n 3, getContext sf n 3] else [])
               (descendants sf))"
    by (simp only: conditionalVisit_context)
qed

text \<open>
  C7, as the code has it. The contexts of a pass are, descendant by descendant in
  pre-order, the window around the node visited: every mutant that the binary, the
  unary or the boolean-literal callback pushes at a node has the window of padding 2
  around that node, and the two mutants of an \<open>if\<close> statement have the window of
  padding 3 around that whole statement. Where the line numbers of the provider agree
  with the lines of the text as split at line feeds (\<open>1 \<le> s \<le> e \<le> last\<close> and \<open>last\<close>
  at most the number of those lines, \<open>s\<close> and \<open>e\<close> the first and last line of the node),
  the window of padding \<open>p\<close> holds the lines of the node with \<open>min p (s - 1)\<close> lines
  above and \<open>min p (last - e)\<close> lines below: exactly \<open>p\<close> on both sides when the node
  lies at least \<open>p\<close> lines from both ends of the file, fewer where the window is cut at
  an end of the file.
\<close>

theorem context_window:
  "map mutantContext (collectBinaryMutations sf fname) =
     concat (map (\<lambda>n. replicate (length (fst (binaryVisit sf fname n ([], 0)))) (getContext sf n 2))
               (descendants sf))
   \<and> map mutantContext (collectUnaryMutations sf fname a) =
     concat (map (\<lambda>n. replicate (length (fst (unaryVisit sf fname n ([], 0)))) (getContext sf n 2))
               (descendants sf))
   \<and> map mutantContext (collectBooleanMutations sf fname b) =
     concat (map (\<lambda>n. replicate (length (fst (booleanVisit sf fname n ([], 0)))) (getContext sf n 2))
               (descendants sf))
   \<and> map mutantContext (collectConditionalMutations sf fname c) =
     concat (map (\<lambda>n. if isIfStatement n then [getContext sf n 3, getContext sf n 3] else [])
               (descendants sf))
   \<and> (0 \<le> p \<and> 1 \<le> startLineNumber (getInfo n)
       \<and> startLineNumber (getInfo n) \<le> endLineNumber (getInfo n)
       \<and> endLineNumber (getInfo n) \<le> sourceEndLineNumber sf
       \<and> sourceEndLineNumber sf \<le> int (length (splitLines (fullText sf)))
       \<longrightarrow> splitLines (getContext sf n p) =
             take (nat (min p (startLineNumber (getInfo n) - 1)
                        + (endLineNumber (getInfo n) - startLineNumber (getInfo n) + 1)
                        + min p (sourceEndLineNumber sf - endLineNumber (getInfo n))))
               (drop (nat (startLineNumber (getInfo n) - 1 - min p (startLineNumber (getInfo n) - 1)))
                  (splitLines (fullText sf)))
           \<and> length (splitLines (getContext sf n p)) =
             nat (min p (startLineNumber (getInfo n) - 1)
                  + (endLineNumber (getInfo n) - startLineNumber (getInfo n) + 1)
                  + min p (sourceEndLineNumber sf - endLineNumber (getInfo n))))
   \<and> (0 \<le> p \<and> p < startLineNumber (getInfo n)
       \<and> startLineNumber (getInfo n) \<le> endLineNumber (getInfo n)
       \<and> endLineNumber (getInfo n) + p \<le> sourceEndLineNumber sf
       \<and> sourceEndLineNumber sf \<le> int (length (splitLines (fullText sf)))
       \<longrightarrow> splitLines (getContext sf n p) =
             take (nat (endLineNumber (getInfo n) - startLineNumber (getInfo n) + 1 + 2 * p))
               (drop (nat (startLineNumber (getInfo n) - p - 1)) (splitLines (fullText sf)))
           \<and> length (splitLines (getContext sf n p)) =
             nat (endLineNumber (getInfo n) - startLineNumber (getInfo n) + 1 + 2 * p))"
proof -
  let ?s = "startLineNumber (getInfo n)"
  let ?e = "endLineNumber (getInfo n)"
  let ?E = "sourceEndLineNumber sf"
  let ?all = "splitLines (fullText sf)"
  have clamped: "0 \<le> p \<and> 1 \<le> ?s \<and> ?s \<le> ?e \<and> ?e \<le> ?E \<and> ?E \<le> int (length ?all)
       \<longrightarrow> splitLines (getContext sf n p) =
             take (nat (min p (?s - 1) + (?e - ?s + 1) + min p (?E - ?e)))
               (drop (nat (?s - 1 - min p (?s - 1))) ?all)
           \<and> length (splitLines (getContext sf n p)) =
             nat (min p (?s - 1) + (?e - ?s + 1) + min p (?E - ?e))"
    using getContext_lines [of p n sf] by blast
  have full: "0 \<le> p \<and> p < ?s \<and> ?s \<le> ?e \<and> ?e + p \<le> ?E \<and> ?E \<le> int (length ?all)
       \<longrightarrow> splitLines (getContext sf n p) =
             take (nat (?e - ?s + 1 + 2 * p)) (drop (nat (?s - p - 1)) ?all)
           \<and> length (splitLines (getContext sf n p)) = nat (?e - ?s + 1 + 2 * p)"
  proof (intro impI)
    assume h: "0 \<le> p \<and> p < ?s \<and> ?s \<le> ?e \<and> ?e + p \<le> ?E \<and> ?E \<le> int (length ?all)"
    then have pre: "0 \<le> p" "1 \<le> ?s" "?s \<le> ?e" "?e \<le> ?E" "?E \<le> int (length ?all)"
      by simp_all
    from h have ab: "min p (?s - 1) = p" and be: "min p (?E - ?e) = p"
      by simp_all
    have sz: "p + (?e - ?s + 1) + p = ?e - ?s + 1 + 2 * p" and off: "?s - 1 - p = ?s - p - 1"
      by simp_all
    from getContext_lines [OF pre]
    show "splitLines (getContext sf n p) =
             take (nat (?e - ?s + 1 + 2 * p)) (drop (nat (?s - p - 1)) ?all)
           \<and> length (splitLines (getContext sf n p)) = nat (?e - ?s + 1 + 2 * p)"
      by (simp only: ab be sz off)
  qed
  from pass_contexts(1) [of sf fname] pass_contexts(2) [of sf fname a]
    pass_contexts(3) [of sf fname b] pass_contexts(4) [of sf fname c] clamped full
  show ?thesis by (intro conjI)
qed

theorem context_window_witness:
  "map mutantContext (collectBinaryMutations exampleGuard ''src/g.ts'')
     = replicate 3 (joinLines [''b;'', ''c;'', ''if (x < y) {'', ''  return !true;'', ''}''])
   \<and> map mutantContext (collectUnaryMutations exampleGuard ''src/g.ts'' 3)
     = [joinLines [''c;'', ''if (x < y) {'', ''  return !true;'', ''}'', ''d;'']]
   \<and> map mutantContext (collectConditionalMutations exampleGuard ''src/g.ts'' 5)
     = replicate 2 (joinLines guardLines)
   \<and> length (splitLines (getContext exampleGuard guardCondition 2)) = 5
   \<and> length (splitLines (getContext exampleGuard guardStatement 3)) = 9
   \<and> length (splitLines (getContext examplePositive positiveExpression 2)) = 1"
proof -
  note inst = context_window [where sf = exampleGuard and fname = "''src/g.ts''" and a = 3
      and b = 4 and c = 5 and n = guardCondition and p = 2]
  have bin: "map mutantContext (collectBinaryMutations exampleGuard ''src/g.ts'') =
     concat (map (\<lambda>n. replicate (length (fst (binaryVisit exampleGuard ''src/g.ts'' n ([], 0))))
                        (getContext exampleGuard n 2)) (descendants exampleGuard))"
    by (rule inst [THEN conjunct1])
  have un: "map mutantContext (collectUnaryMutations exampleGuard ''src/g.ts'' 3) =
     concat (map (\<lambda>n. replicate (length (fst (unaryVisit exampleGuard ''src/g.ts'' n ([], 0))))
                        (getContext exampleGuard n 2)) (descendants exampleGuard))"
    by (rule inst [THEN conjunct2, THEN conjunct1])
  have co: "map mutantContext (collectConditionalMutations exampleGuard ''src/g.ts'' 5) =
     concat (map (\<lambda>n. if isIfStatement n
                        then [getContext exampleGuard n 3, getContext exampleGuard n 3] else [])
               (descendants exampleGuard))"
    by (rule inst [THEN conjunct2, THEN conjunct2, THEN conjunct2, THEN conjunct1])
  have bin_v: "concat (map (\<lambda>n. replicate (length (fst (binaryVisit exampleGuard ''src/g.ts'' n ([], 0))))
                        (getContext exampleGuard n 2)) (descendants exampleGuard))
      = replicate 3 (joinLines [''b;'', ''c;'', ''if (x < y) {'', ''  return !true;'', ''}''])"
    by code_simp
  have un_v: "concat (map (\<lambda>n. replicate (length (fst (unaryVisit exampleGuard ''src/g.ts'' n ([], 0))))
                        (getContext exampleGuard n 2)) (descendants exampleGuard))
      = [joinLines [''c;'', ''if (x < y) {'', ''  return !true;'', ''}'', ''d;'']]"
    by code_simp
  have co_v: "concat (map (\<lambda>n. if isIfStatement n
                        then [getContext exampleGuard n 3, getContext exampleGuard n 3] else [])
               (descendants exampleGuard))
      = replicate 2 (joinLines guardLines)"
    by code_simp
  have h2: "(0::int) \<le> 2 \<and> 2 < startLineNumber (getInfo guardCondition)
       \<and> startLineNumber (getInfo guardCondition) \<le> endLineNumber (getInfo guardCondition)
       \<and> endLineNumber (getInfo guardCondition) + 2 \<le> sourceEndLineNumber exampleGuard
       \<and> sourceEndLineNumber exampleGuard \<le> int (length (splitLines (fullText exampleGuard)))"
    by code_simp
  have h3: "(0::int) \<le> 3 \<and> 3 < startLineNumber (getInfo guardStatement)
       \<and> startLineNumber (getInfo guardStatement) \<le> endLineNumber (getInfo guardStatement)
       \<and> endLineNumber (getInfo guardStatement) + 3 \<le> sourceEndLineNumber exampleGuard
       \<and> sourceEndLineNumber exampleGuard \<le> int (length (splitLines (fullText exampleGuard)))"
    by code_simp
  have h1: "(0::int) \<le> 2 \<and> 1 \<le> startLineNumber (getInfo positiveExpression)
       \<and> startLineNumber (getInfo positiveExpression) \<le> endLineNumber (getInfo positiveExpression)
       \<and> endLineNumber (getInfo positiveExpression) \<le> sourceEndLineNumber examplePositive
       \<and> sourceEndLineNumber examplePositive \<le> int (length (splitLines (fullText examplePositive)))"
    by code_simp
  have v2: "nat (endLineNumber (getInfo guardCondition) - startLineNumber (getInfo guardCondition) + 1 + 2 * 2) = 5"
    by code_simp
  have v3: "nat (endLineNumber (getInfo guardStatement) - startLineNumber (getInfo guardStatement) + 1 + 2 * 3) = 9"
    by code_simp
  have v1: "nat (min 2 (startLineNumber (getInfo positiveExpression) - 1)
        + (endLineNumber (getInfo positiveExpression) - startLineNumber (getInfo positiveExpression) + 1)
        + min 2 (sourceEndLineNumber examplePositive - endLineNumber (getInfo positiveExpression))) = 1"
    by code_simp
  from inst h2
  have c2: "length (splitLines (getContext exampleGuard guardCondition 2)) =
             nat (endLineNumber (getInfo guardCondition) - startLineNumber (getInfo guardCondition) + 1 + 2 * 2)"
    by blast
  from context_window [where sf = exampleGuard and n = guardStatement and p = 3] h3
  have c3: "length (splitLines (getContext exampleGuard guardStatement 3)) =
             nat (endLineNumber (getInfo guardStatement) - startLineNumber (getInfo guardStatement) + 1 + 2 * 3)"
    by blast
  from context_window [where sf = examplePositive and n = positiveExpression and p = 2] h1
  have c1: "length (splitLines (getContext examplePositive positiveExpression 2)) =
        nat (min 2 (startLineNumber (getInfo positiveExpression) - 1)
        + (endLineNumber (getInfo positiveExpression) - startLineNumber (getInfo positiveExpression) + 1)
        + min 2 (sourceEndLineNumber examplePositive - endLineNumber (getInfo positiveExpression)))"
    by blast
  from bin bin_v un un_v co co_v c2 v2 c3 v3 c1 v1 show ?thesis
    by (simp only: simp_thms)
qed

text \<open>
  The claim as stated fails: in the one-line file \<^verbatim>\<open>n > 0\<close> the context of the three
  boundary mutants is that single line, with no line above and none below it.
\<close>

theorem context_window_counterexample:
  "map mutantContext (collectBinaryMutations examplePositive ''p.ts'') = [''n > 0'', ''n > 0'', ''n > 0'']
   \<and> map (length \<circ> splitLines \<circ> mutantContext) (collectBinaryMutations examplePositive ''p.ts'')
       = [1, 1, 1]
   \<and> startLineNumber (getInfo positiveExpression) = 1
   \<and> endLineNumber (getInfo positiveExpression) = 1"
  by code_simp

end
